theory Spec2Isabelle
  imports Complex_Main "HOL-Library.Sublist" "HOL-Library.AList"
begin

section \<open>Python strings\<close>

text \<open>
  A Python \<open>str\<close> is a sequence of Unicode code points, and every string operation of
  \<open>main.py\<close> (\<open>len\<close>, \<open>in\<close>, \<open>startswith\<close>, \<open>strip\<close>, \<open>split\<close>, iteration)
  works on code points. A string is therefore a list of code points, each a natural
  number; the literals of the source are written as their code points, with the
  source's text transliterated in the comment beside them.

  \<open>x in s\<close> on strings is \<^const>\<open>sublist\<close>, \<open>s.startswith(x)\<close> is \<^const>\<open>prefix\<close>.
\<close>

type_synonym pystr = "nat list"

definition isspace :: "nat \<Rightarrow> bool" where
  \<comment> \<open>the code points for which \<open>str.isspace\<close> holds; \<open>strip\<close> and \<open>split\<close> use them\<close>
  "isspace c = (c \<in> set [9, 10, 11, 12, 13, 28, 29, 30, 31, 32, 133, 160, 5760,
      8192, 8193, 8194, 8195, 8196, 8197, 8198, 8199, 8200, 8201, 8202,
      8232, 8233, 8239, 8287, 12288])"

definition strip :: "pystr \<Rightarrow> pystr" where
  \<comment> \<open>\<open>s.strip()\<close>\<close>
  "strip s = rev (dropWhile isspace (rev (dropWhile isspace s)))"

section \<open>Normalising the judge's reply: \<open>_validate_ai_response\<close>\<close>

definition SHI :: pystr where \<comment> \<open>U+662F, "shi": yes\<close>
  "SHI = [26159]"
definition FOU :: pystr where \<comment> \<open>U+5426, "fou": no\<close>
  "FOU = [21542]"
definition WU_GUAN :: pystr where \<comment> \<open>"wu guan": unrelated\<close>
  "WU_GUAN = [26080, 20851]"
definition QING_CHONGXIN_TIWEN :: pystr where \<comment> \<open>"qing chongxin tiwen": please ask again\<close>
  "QING_CHONGXIN_TIWEN = [35831, 37325, 26032, 25552, 38382]"
definition HEN_JIEJIN_LE :: pystr where \<comment> \<open>"hen jiejin le": very close\<close>
  "HEN_JIEJIN_LE = [24456, 25509, 36817, 20102]"
definition NI_CAIDUI_LE_YIBUFEN :: pystr where \<comment> \<open>"ni caidui le yibufen": partly right\<close>
  "NI_CAIDUI_LE_YIBUFEN = [20320, 29468, 23545, 20102, 19968, 37096, 20998]"

definition valid_responses :: "pystr list" where
  "valid_responses = [SHI, FOU, WU_GUAN, QING_CHONGXIN_TIWEN, HEN_JIEJIN_LE, NI_CAIDUI_LE_YIBUFEN]"

definition negative_words :: "pystr list" where
  \<comment> \<open>"bu dui", "cuowu", "bu shi", "bu"\<close>
  "negative_words = [[19981, 23545], [38169, 35823], [19981, 26159], [19981]]"

definition affirmative_words :: "pystr list" where
  \<comment> \<open>"dui", "zhengque", "mei cuo", "shi de"\<close>
  "affirmative_words = [[23545], [27491, 30830], [27809, 38169], [26159, 30340]]"

definition unrelated_words :: "pystr list" where
  \<comment> \<open>"wu guan", "bu xiangguan", "mei guanxi"\<close>
  "unrelated_words = [[26080, 20851], [19981, 30456, 20851], [27809, 20851, 31995]]"

fun first_valid :: "pystr list \<Rightarrow> pystr \<Rightarrow> pystr option" where
  \<comment> \<open>\<open>for valid in valid_responses: if valid in response: return valid\<close>\<close>
  "first_valid [] response = None"
| "first_valid (valid # rest) response =
     (if sublist valid response then Some valid else first_valid rest response)"

definition validate_ai_response :: "pystr \<Rightarrow> pystr" where
  "validate_ai_response ai_response =
     (let response = strip ai_response in
      case first_valid valid_responses response of
        Some valid \<Rightarrow> valid
      | None \<Rightarrow>
          if list_ex (\<lambda>word. sublist word response) negative_words then FOU
          else if list_ex (\<lambda>word. sublist word response) affirmative_words then SHI
          else if list_ex (\<lambda>word. sublist word response) unrelated_words then WU_GUAN
          else QING_CHONGXIN_TIWEN)"

section \<open>The fallback answer check: \<open>_simple_answer_check\<close>\<close>

definition stop_words :: "pystr list" where
  \<comment> \<open>the seventeen stop words of the source, in its order\<close>
  "stop_words = [[30340], [20102], [26159], [22312], [21644], [19982], [25110], [20294],
     [28982, 21518], [22240, 20026], [25152, 20197], [36825], [37027], [19968, 20010],
     [23601], [20063], [37117]]"

definition iter_str :: "pystr \<Rightarrow> pystr list" where
  \<comment> \<open>\<open>for word in s\<close>: iterating a \<open>str\<close> yields its code points, each as a string of length one\<close>
  "iter_str s = map (\<lambda>c. [c]) s"

definition answer_words_of :: "pystr \<Rightarrow> pystr list" where
  \<comment> \<open>the set \<open>answer_words\<close> after the first loop, as a list without repetitions\<close>
  "answer_words_of answer_lower =
     remdups (filter (\<lambda>word. length word > 1 \<and> word \<notin> set stop_words) (iter_str answer_lower))"

definition simple_answer_check :: "(pystr \<Rightarrow> pystr) \<Rightarrow> pystr \<Rightarrow> pystr \<Rightarrow> bool" where
  \<comment> \<open>the first argument is \<open>str.lower\<close>, a function of the Python runtime\<close>
  "simple_answer_check lower player_guess answer =
     (let guess_lower = lower player_guess;
          answer_lower = lower answer;
          answer_words = answer_words_of answer_lower;
          match_count = length (filter (\<lambda>word. sublist word guess_lower) answer_words);
          total_key_words = length answer_words
      in if total_key_words > 0
         then real match_count / real total_key_words \<ge> 0.5
         else False)"

definition ascii_lower :: "pystr \<Rightarrow> pystr" where
  \<comment> \<open>\<open>str.lower\<close> on text whose only cased letters are ASCII\<close>
  "ascii_lower s = map (\<lambda>c. if 65 \<le> c \<and> c \<le> 90 then c + 32 else c) s"

section \<open>More string operations\<close>

fun split_ws_from :: "pystr \<Rightarrow> pystr \<Rightarrow> pystr list" where
  \<comment> \<open>the first argument is the word read so far, reversed\<close>
  "split_ws_from cur [] = (if cur = [] then [] else [rev cur])"
| "split_ws_from cur (c # cs) =
     (if isspace c then (if cur = [] then split_ws_from [] cs else rev cur # split_ws_from [] cs)
      else split_ws_from (c # cur) cs)"

definition split_ws :: "pystr \<Rightarrow> pystr list" where
  \<comment> \<open>\<open>s.split()\<close>: the words between runs of whitespace, none of them empty\<close>
  "split_ws s = split_ws_from [] s"

definition split_ws1 :: "pystr \<Rightarrow> pystr list" where
  \<comment> \<open>\<open>s.split(maxsplit=1)\<close>: the first word, and the rest from its first non-space on\<close>
  "split_ws1 s =
     (let t = dropWhile isspace s in
      if t = [] then []
      else (let w = takeWhile (\<lambda>c. \<not> isspace c) t;
                r = dropWhile isspace (dropWhile (\<lambda>c. \<not> isspace c) t)
            in if r = [] then [w] else [w, r]))"

function split_sep :: "pystr \<Rightarrow> pystr \<Rightarrow> pystr \<Rightarrow> pystr list" where
  \<comment> \<open>\<open>s.split(sep)\<close> for a non-empty \<open>sep\<close>, as \<open>split_sep sep [] s\<close>: the second argument is
      the piece read so far, reversed\<close>
  "split_sep sep cur [] = [rev cur]"
| "split_sep sep cur (c # cs) =
     (if sep \<noteq> [] \<and> prefix sep (c # cs)
      then rev cur # split_sep sep [] (drop (length sep) (c # cs))
      else split_sep sep (c # cur) cs)"
  by pat_completeness auto
termination
  by (relation "measure (\<lambda>(sep, cur, s). length s)") (auto simp: Suc_le_eq)

definition split_once :: "nat \<Rightarrow> pystr \<Rightarrow> pystr \<times> pystr" where
  \<comment> \<open>\<open>s.split(sep, 1)\<close> for a one-character \<open>sep\<close> that occurs in \<open>s\<close>: the two parts\<close>
  "split_once sep s = (takeWhile (\<lambda>c. c \<noteq> sep) s, drop 1 (dropWhile (\<lambda>c. c \<noteq> sep) s))"

definition zfill :: "nat \<Rightarrow> pystr \<Rightarrow> pystr" where
  \<comment> \<open>\<open>s.zfill(width)\<close>: zeros (48) on the left, after a leading sign (43, 45); it never raises\<close>
  "zfill width s =
     (if width \<le> length s then s
      else case s of
        [] \<Rightarrow> replicate width 48
      | c # cs \<Rightarrow>
          if c = 43 \<or> c = 45 then c # replicate (width - length s) 48 @ cs
          else replicate (width - length s) 48 @ s)"

datatype py_error = ValueError | IndexError

definition getitem :: "'a list \<Rightarrow> nat \<Rightarrow> py_error + 'a" where
  \<comment> \<open>\<open>xs[i]\<close> for \<open>i \<ge> 0\<close>\<close>
  "getitem xs i = (if i < length xs then Inr (xs ! i) else Inl IndexError)"

fun digits_value :: "int \<Rightarrow> pystr \<Rightarrow> int option" where
  "digits_value acc [] = Some acc"
| "digits_value acc (c # cs) =
     (if 48 \<le> c \<and> c \<le> 57 then digits_value (10 * acc + int (c - 48)) cs else None)"

definition int_ascii :: "pystr \<Rightarrow> int option" where
  \<comment> \<open>\<open>int(s)\<close> on a string of an optional ASCII sign and ASCII digits, \<open>None\<close> for
      \<open>ValueError\<close>. Python's \<open>int\<close> accepts more (underscores between digits, the decimal
      digits of other scripts); the parser below takes \<open>int\<close> as a parameter, and this
      function is one instance of it.\<close>
  "int_ascii s =
     (case strip s of
        [] \<Rightarrow> None
      | c # cs \<Rightarrow>
          if cs = [] then digits_value 0 [c]
          else if c = 45 then map_option uminus (digits_value 0 cs)
          else if c = 43 then digits_value 0 cs
          else digits_value 0 (c # cs))"

section \<open>The question bank\<close>

record question_metadata =
  id' :: pystr
  title :: pystr
  difficulty :: int
  tags :: "pystr list"

text \<open>A question is the source's tuple \<open>(question, answer, metadata)\<close>.\<close>

type_synonym question_record = "pystr \<times> pystr \<times> question_metadata"

definition KEY_ID :: pystr where \<comment> \<open>\<open>'ID'\<close>\<close>
  "KEY_ID = [73, 68]"
definition KEY_TANGMIAN :: pystr where \<comment> \<open>"tang mian": the story\<close>
  "KEY_TANGMIAN = [27748, 38754]"
definition KEY_TANGDI :: pystr where \<comment> \<open>"tang di": the solution\<close>
  "KEY_TANGDI = [27748, 24213]"
definition KEY_BIAOTI :: pystr where \<comment> \<open>"biaoti": the title\<close>
  "KEY_BIAOTI = [26631, 39064]"
definition KEY_NANDU :: pystr where \<comment> \<open>"nandu": the difficulty\<close>
  "KEY_NANDU = [38590, 24230]"
definition KEY_BIAOQIAN :: pystr where \<comment> \<open>"biaoqian": the tags\<close>
  "KEY_BIAOQIAN = [26631, 31614]"

definition dict_get :: "(pystr \<rightharpoonup> pystr) \<Rightarrow> pystr \<Rightarrow> pystr \<Rightarrow> pystr" where
  \<comment> \<open>\<open>d.get(key, default)\<close>\<close>
  "dict_get d key dflt = (case d key of Some v \<Rightarrow> v | None \<Rightarrow> dflt)"

definition read_line :: "pystr \<Rightarrow> (pystr \<rightharpoonup> pystr) \<Rightarrow> (pystr \<rightharpoonup> pystr)" where
  \<comment> \<open>the body of the loop over the lines of a block; 58 is the colon, 35 the hash sign\<close>
  "read_line raw_line question_info =
     (let line = strip raw_line in
      if 58 \<in> set line \<and> \<not> prefix [35] line
      then (case split_once 58 line of (key, val) \<Rightarrow> question_info(strip key \<mapsto> strip val))
      else question_info)"

definition block_info :: "pystr \<Rightarrow> (pystr \<rightharpoonup> pystr)" where
  \<comment> \<open>the dictionary \<open>question_info\<close> after the loop; 10 is the newline\<close>
  "block_info block = fold read_line (split_sep [10] [] block) Map.empty"

definition parse_tags :: "pystr \<Rightarrow> pystr list" where
  \<comment> \<open>\<open>[tag.strip() for tag in s.split(',') if tag.strip()]\<close>\<close>
  "parse_tags s = filter (\<lambda>tag. tag \<noteq> []) (map strip (split_sep [44] [] s))"

datatype parsed = Parsed question_record | Warned | Skipped

definition parse_question_block :: "(pystr \<Rightarrow> int option) \<Rightarrow> pystr \<Rightarrow> parsed" where
  \<comment> \<open>The first argument is Python's \<open>int\<close> on strings, \<open>None\<close> for \<open>ValueError\<close>.
      \<open>Warned\<close> is the \<open>except\<close> branch (a warning is logged, \<open>None\<close> returned),
      \<open>Skipped\<close> the final \<open>return None\<close>, which logs nothing.\<close>
  "parse_question_block py_int block =
     (let question_info = block_info block in
      case (question_info KEY_ID, question_info KEY_TANGMIAN, question_info KEY_TANGDI) of
        (Some i, Some tangmian, Some tangdi) \<Rightarrow>
          (case py_int (dict_get question_info KEY_NANDU [51]) of
             None \<Rightarrow> Warned
           | Some d \<Rightarrow>
               Parsed (tangmian, tangdi,
                 \<lparr>id' = i, title = dict_get question_info KEY_BIAOTI [], difficulty = d,
                  tags = parse_tags (dict_get question_info KEY_BIAOQIAN [])\<rparr>))
      | _ \<Rightarrow> Skipped)"

definition parse_blocks :: "(pystr \<Rightarrow> int option) \<Rightarrow> pystr list \<Rightarrow> question_record list" where
  \<comment> \<open>the loop over \<open>question_blocks\<close>: empty blocks and blocks that start with the hash
      sign are passed over, a block that gives no record adds nothing\<close>
  "parse_blocks py_int question_blocks =
     concat (map (\<lambda>raw_block.
        let block = strip raw_block in
        if block = [] \<or> prefix [35] block then []
        else (case parse_question_block py_int block of Parsed q \<Rightarrow> [q] | Warned \<Rightarrow> [] | Skipped \<Rightarrow> []))
      question_blocks)"

definition get_default_questions :: "question_record list" where
  \<comment> \<open>the two built-in questions: the lighthouse keeper (001) and the turtle soup (002)\<close>
  "get_default_questions =
     [([19968, 20010, 30007, 20154, 25512, 24320, 38376, 65292, 30475, 21040, 30524, 21069,
        30340, 26223, 35937, 21518, 31435, 21363, 36339, 27004, 33258, 26432, 20102, 12290,
        20026, 20160, 20040, 65311],
       [36825, 20010, 30007, 20154, 26159, 28783, 22612, 31649, 29702, 21592, 65292, 20182,
        21457, 29616, 28783, 22612, 30340, 28783, 28781, 20102, 65292, 24847, 35782, 21040,
        22240, 20026, 33258, 24049, 30340, 30095, 24573, 23548, 33268, 33337, 21482, 22833,
        20107, 65292, 24871, 30106, 20043, 19979, 36873, 25321, 20102, 36339, 27004, 12290],
       \<lparr>id' = [48, 48, 49], title = [28783, 22612, 30475, 23432, 21592], difficulty = 3,
        tags = [[32463, 20856], [33258, 26432], [36131, 20219]]\<rparr>),
      ([19968, 20010, 22899, 20154, 22312, 39184, 21381, 28857, 20102, 19968, 20221, 28023,
        40863, 27748, 65292, 21917, 20102, 19968, 21475, 21518, 23601, 21741, 20102, 12290,
        20026, 20160, 20040, 65311],
       [36825, 20010, 22899, 20154, 26366, 32463, 21644, 19976, 22827, 19968, 36215, 36935,
        38590, 65292, 19976, 22827, 21578, 35785, 22905, 29038, 30340, 26159, 28023, 40863,
        27748, 35753, 22905, 27963, 19979, 26469, 65292, 20294, 22905, 29616, 22312, 25165,
        30693, 36947, 24403, 26102, 21917, 30340, 20854, 23454, 26159, 19976, 22827, 30340,
        32905, 20570, 30340, 27748, 12290],
       \<lparr>id' = [48, 48, 50], title = [28023, 40863, 27748], difficulty = 4,
        tags = [[32463, 20856], [39135, 20154], [32972, 21467]]\<rparr>)]"

definition parse_questions_bank :: "(pystr \<Rightarrow> int option) \<Rightarrow> pystr option \<Rightarrow> question_record list" where
  \<comment> \<open>The second argument is what reading the file gave: its text, or \<open>None\<close> when opening
      or reading it raised (both \<open>except\<close> branches return the built-in questions).
      The delimiter is three hyphens (45).\<close>
  "parse_questions_bank py_int file =
     (case file of
        None \<Rightarrow> get_default_questions
      | Some text \<Rightarrow>
          (let content = strip text;
               question_blocks = split_sep [45, 45, 45] [] content;
               questions = parse_blocks py_int question_blocks
           in if questions = [] then get_default_questions else questions))"

definition get_question_and_answer ::
    "question_record list \<Rightarrow> pystr option \<Rightarrow> nat \<Rightarrow> question_record option" where
  \<comment> \<open>\<open>None\<close> is the source's \<open>(None, None, {})\<close>. The last argument is the draw of
      \<open>random.choice\<close>, used only on the branch that calls it: it picks the element at
      that index (modulo the length).\<close>
  "get_question_and_answer bank question_id draw =
     (if bank = [] then None
      else case question_id of
        Some qid \<Rightarrow>
          if qid \<noteq> [] then find (\<lambda>(q, a, m). id' m = qid) bank
          else Some (bank ! (draw mod length bank))
      | None \<Rightarrow> Some (bank ! (draw mod length bank)))"

section \<open>Sessions, events and the runtime\<close>

datatype turn =
    System pystr pystr  \<comment> \<open>the system prompt, formatted from a question and its answer\<close>
  | User pystr
  | Assistant pystr

text \<open>
  The framework's \<open>SessionController\<close> holds the session's inactivity timer. The model
  keeps the time the timer has left; \<open>keep(timeout, reset_timeout=True)\<close> sets it to
  \<open>timeout\<close>, and nothing else in \<open>main.py\<close> changes it.
\<close>

record session_controller =
  remaining :: int

definition keep :: "session_controller \<Rightarrow> int \<Rightarrow> session_controller" where
  "keep c timeout = c\<lparr>remaining := timeout\<rparr>"

record game_state =
  question :: pystr
  answer :: pystr
  metadata :: question_metadata
  question_count :: int
  llm_conversation_context :: "turn list"
  controller :: "session_controller option"

text \<open>
  The plugin object. \<open>game_states\<close> is a Python dictionary: an association list with one
  entry for each key, in insertion order; \<open>map_of\<close> reads it, \<^const>\<open>AList.update\<close>
  writes an entry (a session's dictionary is mutated in place, so every change of a session
  is a write at its key) and \<^const>\<open>AList.delete\<close> is \<open>pop\<close>.
\<close>

record plugin =
  session_timeout :: int
  max_questions :: int
  questions_bank :: "question_record list"
  game_states :: "(pystr \<times> game_state) list"

record event =
  message_str :: pystr
  sender_id :: pystr
  group_id :: "pystr option"
  is_admin :: bool

text \<open>
  What the Python runtime, the language-model provider and the event loop give to one
  handler call: \<open>str.lower\<close>; whether \<open>get_using_provider()\<close> returns a provider; the text
  the provider completes the answer check and the judge call with (\<open>None\<close>: the call
  raised); whether the session was removed by another task while the handler was suspended
  in the answer check or in the judge call; and the draws of \<open>random.choice\<close>, the
  \<open>k\<close>-th call of the handler taking \<open>choice k\<close>.
\<close>

record runtime =
  lower :: "pystr \<Rightarrow> pystr"
  provider :: bool
  check_reply :: "pystr option"
  judge_reply :: "pystr option"
  removed_during_check :: bool
  removed_during_judge :: bool
  choice :: "nat \<Rightarrow> nat"

text \<open>The messages sent to the user, each with the values its template is filled with.\<close>

datatype message =
    MSG_GAME_IN_PROGRESS
  | MSG_DISCLAIMER int int
  | MSG_ID_FORMAT_ERROR
  | MSG_QUESTION_NOT_FOUND pystr
  | MSG_NO_PRESET_QUESTIONS
  | MSG_INTRO question_metadata pystr int
  | MSG_NO_AI_PROVIDER_FOR_JUDGE
  | MSG_EMPTY_QUESTION
  | MSG_STATE_ERROR
  | MSG_NO_GAME_FOR_QUESTION
  | MSG_AI_CHECKING_ANSWER
  | MSG_CORRECT_ANSWER pystr int "pystr list"
  | MSG_OUT_OF_QUESTIONS int pystr "pystr list"
  | MSG_ROUND_RESULT int pystr pystr int
  | MSG_AI_ERROR
  | MSG_GAME_ENDED_BY_USER pystr "pystr list" int
  | MSG_GAME_FORCE_ENDED
  | MSG_NO_GAME_TO_END
  | MSG_REVEAL_ANSWER question_metadata pystr pystr int
  | MSG_CHANGE_FAILED
  | MSG_CHANGE_QUESTION question_metadata pystr int
  | MSG_HELP int int
  | MSG_NO_ACTIVE_GAMES
  | MSG_ADMIN_DONE nat

definition CMD_START :: pystr where \<comment> \<open>"kaishi haiguitang": start turtle soup\<close>
  "CMD_START = [24320, 22987, 28023, 40863, 27748]"
definition CMD_END :: pystr where \<comment> \<open>"jieshu haiguitang": end\<close>
  "CMD_END = [32467, 26463, 28023, 40863, 27748]"
definition CMD_FORCE_END :: pystr where \<comment> \<open>"qiangzhi jieshu haiguitang": force end\<close>
  "CMD_FORCE_END = [24378, 21046, 32467, 26463, 28023, 40863, 27748]"
definition CMD_REVEAL :: pystr where \<comment> \<open>"gongbu da'an": reveal the answer\<close>
  "CMD_REVEAL = [20844, 24067, 31572, 26696]"
definition CMD_CHANGE :: pystr where \<comment> \<open>"huan yi ti": change the question\<close>
  "CMD_CHANGE = [25442, 19968, 39064]"
definition CMD_HELP :: pystr where \<comment> \<open>"haiguitang bangzhu": help\<close>
  "CMD_HELP = [28023, 40863, 27748, 24110, 21161]"
definition CMD_ASK :: pystr where \<comment> \<open>"haiguitang tiwen": ask a question\<close>
  "CMD_ASK = [28023, 40863, 27748, 25552, 38382]"
definition CMD_ADMIN_END :: pystr where \<comment> \<open>\<open>'admin end turtle'\<close>\<close>
  "CMD_ADMIN_END = [97, 100, 109, 105, 110, 32, 101, 110, 100, 32, 116, 117, 114, 116, 108, 101]"

definition get_session_key :: "event \<Rightarrow> pystr" where
  "get_session_key ev =
     (case group_id ev of
        Some g \<Rightarrow> if g \<noteq> [] then g else sender_id ev
      | None \<Rightarrow> sender_id ev)"

definition set_game_state :: "plugin \<Rightarrow> pystr \<Rightarrow> game_state \<Rightarrow> plugin" where
  "set_game_state p session_key gs = p\<lparr>game_states := AList.update session_key gs (game_states p)\<rparr>"

definition keep_alive :: "plugin \<Rightarrow> game_state \<Rightarrow> game_state" where
  \<comment> \<open>\<open>if controller: controller.keep(timeout=self.session_timeout, reset_timeout=True)\<close>\<close>
  "keep_alive p gs =
     (case controller gs of
        Some c \<Rightarrow> gs\<lparr>controller := Some (keep c (session_timeout p))\<rparr>
      | None \<Rightarrow> gs)"

definition cleanup_game_session :: "plugin \<Rightarrow> pystr \<Rightarrow> plugin" where
  \<comment> \<open>the session is popped; its controller, stopped, goes with it\<close>
  "cleanup_game_session p session_key = p\<lparr>game_states := AList.delete session_key (game_states p)\<rparr>"

section \<open>Judging a question and checking a guess\<close>

definition simple_judge :: "pystr \<Rightarrow> pystr \<Rightarrow> pystr" where
  "simple_judge player_question ans =
     (if list_ex (\<lambda>keyword. sublist keyword player_question) (split_ws ans) then SHI else FOU)"

definition get_ai_judge_response :: "runtime \<Rightarrow> pystr \<Rightarrow> game_state \<Rightarrow> pystr option \<times> game_state" where
  \<comment> \<open>the label and the session as the call leaves it; \<open>None\<close> when the provider raised,
      after the player's question was appended to the context\<close>
  "get_ai_judge_response rt player_question gs =
     (if \<not> provider rt then (Some (simple_judge player_question (answer gs)), gs)
      else (let gs1 = gs\<lparr>llm_conversation_context :=
                              llm_conversation_context gs @ [User player_question]\<rparr>
            in case judge_reply rt of
                 None \<Rightarrow> (None, gs1)
               | Some completion_text \<Rightarrow>
                   (let ai_raw_answer = strip completion_text;
                        ai_answer = validate_ai_response ai_raw_answer
                    in (Some ai_answer,
                        gs1\<lparr>llm_conversation_context :=
                              llm_conversation_context gs1 @ [Assistant ai_answer]\<rparr>))))"

definition is_answer_correct :: "runtime \<Rightarrow> pystr \<Rightarrow> pystr \<Rightarrow> bool" where
  "is_answer_correct rt player_guess ans =
     (if \<not> provider rt then simple_answer_check (lower rt) player_guess ans
      else case check_reply rt of
        Some completion_text \<Rightarrow> sublist SHI (strip completion_text)
      | None \<Rightarrow> simple_answer_check (lower rt) player_guess ans)"

definition guess_keywords :: "pystr list" where
  \<comment> \<open>"da'an shi", "zhenxiang shi", "yinwei", "suoyi", "shi yinwei", "yuanyin shi",
      "wo juede shi", "wo renwei shi", "yinggai shi", "yiding shi", "kending shi"\<close>
  "guess_keywords = [[31572, 26696, 26159], [30495, 30456, 26159], [22240, 20026],
     [25152, 20197], [26159, 22240, 20026], [21407, 22240, 26159],
     [25105, 35273, 24471, 26159], [25105, 35748, 20026, 26159], [24212, 35813, 26159],
     [19968, 23450, 26159], [32943, 23450, 26159]]"

definition outcome_words :: "pystr list" where
  \<comment> \<open>"daozhi", "zaocheng", "jieguo", "fasheng le", "shishi shi"\<close>
  "outcome_words = [[23548, 33268], [36896, 25104], [32467, 26524], [21457, 29983, 20102],
     [20107, 23454, 26159]]"

definition action_words :: "pystr list" where
  \<comment> \<open>"si", "sha", "hai", "zuo", "fasheng"\<close>
  "action_words = [[27515], [26432], [23475], [20570], [21457, 29983]]"

definition is_a_guess :: "pystr \<Rightarrow> bool" where
  "is_a_guess q =
     (list_ex (\<lambda>keyword. sublist keyword q) guess_keywords
      \<or> (length q > 25 \<and> list_ex (\<lambda>word. sublist word q) outcome_words)
      \<or> (sublist SHI q \<and> length q > 15 \<and> list_ex (\<lambda>word. sublist word q) action_words))"

section \<open>The handlers\<close>

text \<open>Every handler returns the plugin as it leaves it and the messages it sent, in order.\<close>

definition judge_round :: "plugin \<Rightarrow> runtime \<Rightarrow> pystr \<Rightarrow> pystr \<Rightarrow> game_state \<Rightarrow> message list
    \<Rightarrow> plugin \<times> message list" where
  \<comment> \<open>\<open>_handle_turtle_soup_question\<close> from the check of the question budget on; \<open>sent\<close> are
      the messages of the first part\<close>
  "judge_round p rt session_key q gs sent =
     (if question_count gs > max_questions p
      then (cleanup_game_session p session_key,
            sent @ [MSG_OUT_OF_QUESTIONS (max_questions p) (answer gs) (tags (metadata gs))])
      else (case get_ai_judge_response rt q gs of
              (reply, gs') \<Rightarrow>
                (let p' = (if removed_during_judge rt then cleanup_game_session p session_key
                           else set_game_state p session_key gs')
                 in case reply of
                      None \<Rightarrow> (p', sent @ [MSG_AI_ERROR])
                    | Some ai_answer \<Rightarrow>
                        if removed_during_judge rt then (p', sent)
                        else (p', sent @ [MSG_ROUND_RESULT (question_count gs') q ai_answer
                                            (max_questions p - question_count gs')]))))"

definition handle_turtle_soup_question :: "plugin \<Rightarrow> runtime \<Rightarrow> event \<Rightarrow> pystr
    \<Rightarrow> plugin \<times> message list" where
  "handle_turtle_soup_question p rt ev q =
     (let session_key = get_session_key ev in
      case map_of (game_states p) session_key of
        None \<Rightarrow> (p, [MSG_STATE_ERROR])
      | Some gs0 \<Rightarrow>
          (let gs1 = keep_alive p gs0;
               gs = gs1\<lparr>question_count := question_count gs1 + 1\<rparr>;
               p1 = set_game_state p session_key gs
           in if is_a_guess q then
                (let is_correct = is_answer_correct rt q (answer gs) in
                 if removed_during_check rt
                 then (cleanup_game_session p1 session_key, [MSG_AI_CHECKING_ANSWER])
                 else if is_correct
                 then (cleanup_game_session p1 session_key,
                       [MSG_AI_CHECKING_ANSWER,
                        MSG_CORRECT_ANSWER (answer gs) (question_count gs) (tags (metadata gs))])
                 else judge_round p1 rt session_key q gs [MSG_AI_CHECKING_ANSWER])
              else judge_round p1 rt session_key q gs []))"

definition end_turtle_soup :: "plugin \<Rightarrow> event \<Rightarrow> plugin \<times> message list" where
  "end_turtle_soup p ev =
     (let session_key = get_session_key ev in
      case map_of (game_states p) session_key of
        Some gs \<Rightarrow>
          (cleanup_game_session p session_key,
           [MSG_GAME_ENDED_BY_USER (answer gs) (tags (metadata gs)) (question_count gs)])
      | None \<Rightarrow> (p, [MSG_NO_GAME_TO_END]))"

definition force_end_turtle_soup :: "plugin \<Rightarrow> event \<Rightarrow> plugin \<times> message list" where
  "force_end_turtle_soup p ev =
     (let session_key = get_session_key ev in
      if map_of (game_states p) session_key \<noteq> None
      then (cleanup_game_session p session_key, [MSG_GAME_FORCE_ENDED])
      else (p, [MSG_NO_GAME_TO_END]))"

definition reveal_answer :: "plugin \<Rightarrow> event \<Rightarrow> plugin \<times> message list" where
  "reveal_answer p ev =
     (let session_key = get_session_key ev in
      case map_of (game_states p) session_key of
        Some gs \<Rightarrow>
          (p, [MSG_REVEAL_ANSWER (metadata gs) (question gs) (answer gs) (question_count gs)])
      | None \<Rightarrow> (p, [MSG_NO_GAME_TO_END]))"

definition max_attempts :: nat where
  "max_attempts = 10"

definition differs :: "question_record option \<Rightarrow> pystr \<Rightarrow> bool" where
  \<comment> \<open>\<open>new_question and new_answer and new_question != current_question\<close>\<close>
  "differs new current_question =
     (case new of
        None \<Rightarrow> False
      | Some (new_question, new_answer, new_metadata) \<Rightarrow>
          new_question \<noteq> [] \<and> new_answer \<noteq> [] \<and> new_question \<noteq> current_question)"

function change_loop :: "question_record list \<Rightarrow> (nat \<Rightarrow> nat) \<Rightarrow> pystr \<Rightarrow> nat
    \<Rightarrow> question_record option \<Rightarrow> question_record option \<times> nat" where
  \<comment> \<open>The \<open>while\<close> loop of \<open>change_question\<close>, from a value of \<open>attempts\<close> and the last
      sample on: it returns the sample the loop ends with and \<open>attempts\<close>. The loop is
      entered with \<open>attempts = 0\<close>, where the sample is not yet bound.\<close>
  "change_loop bank draws current_question attempts new =
     (if attempts < max_attempts
      then (let new' = get_question_and_answer bank None (draws attempts) in
            if differs new' current_question then (new', attempts)
            else change_loop bank draws current_question (attempts + 1) new')
      else (new, attempts))"
  by pat_completeness auto
termination
  by (relation "measure (\<lambda>(bank, draws, cur, attempts, new). max_attempts - attempts)") auto

declare change_loop.simps [simp del]

definition change_question :: "plugin \<Rightarrow> runtime \<Rightarrow> event \<Rightarrow> plugin \<times> message list" where
  "change_question p rt ev =
     (let session_key = get_session_key ev in
      case map_of (game_states p) session_key of
        None \<Rightarrow> (p, [MSG_NO_GAME_TO_END])
      | Some gs \<Rightarrow>
          (case fst (change_loop (questions_bank p) (choice rt) (question gs) 0 None) of
             None \<Rightarrow> (p, [MSG_CHANGE_FAILED])
           | Some (new_question, new_answer, new_metadata) \<Rightarrow>
               if new_question = [] \<or> new_answer = [] then (p, [MSG_CHANGE_FAILED])
               else (let gs1 = gs\<lparr>question := new_question, answer := new_answer,
                                   metadata := new_metadata, question_count := 0,
                                   llm_conversation_context :=
                                     (if provider rt then [System new_question new_answer] else [])\<rparr>;
                         gs2 = keep_alive p gs1
                     in (set_game_state p session_key gs2,
                         [MSG_CHANGE_QUESTION new_metadata new_question (max_questions p)]))))"

definition admin_end_all_games :: "plugin \<Rightarrow> plugin \<times> message list" where
  "admin_end_all_games p =
     (if game_states p = [] then (p, [MSG_NO_ACTIVE_GAMES])
      else (fold (\<lambda>session_key p'. cleanup_game_session p' session_key)
              (map fst (game_states p)) p,
            [MSG_ADMIN_DONE (length (game_states p))]))"

definition send_help_message :: "plugin \<Rightarrow> plugin \<times> message list" where
  "send_help_message p = (p, [MSG_HELP (max_questions p) (session_timeout p)])"

definition handle_game_turn :: "plugin \<Rightarrow> runtime \<Rightarrow> event \<Rightarrow> plugin \<times> message list" where
  "handle_game_turn p rt ev =
     (let player_input = strip (message_str ev);
          session_key = get_session_key ev
      in case map_of (game_states p) session_key of
        None \<Rightarrow> (p, [])
      | Some gs \<Rightarrow>
          if prefix CMD_START player_input
          then (set_game_state p session_key (keep_alive p gs), [MSG_GAME_IN_PROGRESS])
          else if player_input = CMD_END then end_turtle_soup p ev
          else if player_input = CMD_FORCE_END then force_end_turtle_soup p ev
          else if player_input = CMD_REVEAL then reveal_answer p ev
          else if player_input = CMD_CHANGE then change_question p rt ev
          else if player_input = CMD_HELP then send_help_message p
          else if prefix CMD_ASK player_input
          then (let message_parts = split_ws1 player_input in
                if length message_parts < 2 \<or> strip (message_parts ! 1) = []
                then (p, [MSG_EMPTY_QUESTION])
                else handle_turtle_soup_question p rt ev (strip (message_parts ! 1)))
          else if player_input = CMD_ADMIN_END \<and> is_admin ev then admin_end_all_games p
          else (case controller gs of
                  None \<Rightarrow> (cleanup_game_session p (sender_id ev), [])
                | Some c \<Rightarrow> (set_game_state p session_key (keep_alive p gs), [])))"

definition specified_question_id :: "pystr list \<Rightarrow> py_error + pystr option" where
  \<comment> \<open>the \<open>try\<close> block of \<open>start_turtle_soup\<close>: \<open>Inl\<close> when it raises, which sends the
      format notice; \<open>zfill\<close> does not raise, the index can\<close>
  "specified_question_id message_parts =
     (if length message_parts > 1
      then (case getitem message_parts 1 of
              Inl e \<Rightarrow> Inl e
            | Inr part \<Rightarrow> Inr (Some (zfill 3 part)))
      else Inr None)"

definition start_turtle_soup :: "plugin \<Rightarrow> runtime \<Rightarrow> event \<Rightarrow> plugin \<times> message list" where
  \<comment> \<open>\<open>start_turtle_soup\<close> up to the start of the session waiter, which from then on calls
      \<open>_handle_game_turn\<close> on every message of the session\<close>
  "start_turtle_soup p rt ev =
     (let session_key = get_session_key ev in
      if map_of (game_states p) session_key \<noteq> None then (p, [MSG_GAME_IN_PROGRESS])
      else (case specified_question_id (split_ws (message_str ev)) of
              Inl e \<Rightarrow> (p, [MSG_ID_FORMAT_ERROR])
            | Inr specified \<Rightarrow>
                (let disclaimer = MSG_DISCLAIMER (max_questions p) (session_timeout p) in
                 case get_question_and_answer (questions_bank p) specified (choice rt 0) of
                   None \<Rightarrow>
                     (case specified of
                        Some qid \<Rightarrow>
                          if qid \<noteq> [] then (p, [disclaimer, MSG_QUESTION_NOT_FOUND qid])
                          else (p, [disclaimer, MSG_NO_PRESET_QUESTIONS])
                      | None \<Rightarrow> (p, [disclaimer, MSG_NO_PRESET_QUESTIONS]))
                 | Some (q, a, m) \<Rightarrow>
                     if q = [] \<or> a = [] then
                       (case specified of
                          Some qid \<Rightarrow>
                            if qid \<noteq> [] then (p, [disclaimer, MSG_QUESTION_NOT_FOUND qid])
                            else (p, [disclaimer, MSG_NO_PRESET_QUESTIONS])
                        | None \<Rightarrow> (p, [disclaimer, MSG_NO_PRESET_QUESTIONS]))
                     else
                       (let gs = \<lparr>question = q, answer = a, metadata = m, question_count = 0,
                                  llm_conversation_context =
                                    (if provider rt then [System q a] else []),
                                  controller = None\<rparr>
                        in (set_game_state p session_key gs,
                            [disclaimer, MSG_INTRO m q (max_questions p)]
                              @ (if provider rt then [] else [MSG_NO_AI_PROVIDER_FOR_JUDGE]))))))"

definition turtle_soup_waiter :: "plugin \<Rightarrow> runtime \<Rightarrow> session_controller \<Rightarrow> event
    \<Rightarrow> plugin \<times> message list" where
  \<comment> \<open>the waiter's handler: the session of the waiter's key gets the controller on its
      first message, then the turn is handled. The waiter is registered for the sender of
      the start command, whose session key is the key of every message it receives.\<close>
  "turtle_soup_waiter p rt c ev =
     (let session_key = get_session_key ev;
          p1 = (case map_of (game_states p) session_key of
                  Some gs \<Rightarrow>
                    (case controller gs of
                       None \<Rightarrow> set_game_state p session_key (gs\<lparr>controller := Some c\<rparr>)
                     | Some c' \<Rightarrow> p)
                | None \<Rightarrow> p)
      in handle_game_turn p1 rt ev)"

section \<open>A small plugin state to evaluate the handlers on\<close>

definition example_metadata :: question_metadata where
  "example_metadata = \<lparr>id' = [48, 48, 49], title = [116], difficulty = 3, tags = [[120]]\<rparr>"

definition example_session :: game_state where
  \<comment> \<open>a session on the question with story \<open>'s1'\<close> and solution \<open>'a1'\<close>, five questions asked,
      five seconds left on its timer\<close>
  "example_session =
     \<lparr>question = [115, 49], answer = [97, 49], metadata = example_metadata,
      question_count = 5, llm_conversation_context = [User [113]],
      controller = Some \<lparr>remaining = 5\<rparr>\<rparr>"

definition example_plugin :: "int \<Rightarrow> plugin" where
  \<comment> \<open>a plugin with the given question budget, a timeout of 1000 seconds, a bank that holds
      the session's question only, and the one session of the user \<open>'u1'\<close>\<close>
  "example_plugin budget =
     \<lparr>session_timeout = 1000, max_questions = budget,
      questions_bank = [([115, 49], [97, 49], example_metadata)],
      game_states = [([117, 49], example_session)]\<rparr>"

definition example_runtime :: runtime where
  \<comment> \<open>no provider, no interference, every draw of \<open>random.choice\<close> picks the first element\<close>
  "example_runtime =
     \<lparr>lower = ascii_lower, provider = False, check_reply = None, judge_reply = None,
      removed_during_check = False, removed_during_judge = False, choice = (\<lambda>k. 0)\<rparr>"

definition example_event :: "pystr \<Rightarrow> event" where
  \<comment> \<open>a private message of the user \<open>'u1'\<close>\<close>
  "example_event text = \<lparr>message_str = text, sender_id = [117, 49], group_id = None, is_admin = False\<rparr>"

definition example_bank2 :: "question_record list" where
  \<comment> \<open>a bank of two questions, the first of them the question of \<open>example_session\<close>\<close>
  "example_bank2 = [([115, 49], [97, 49], example_metadata), ([115, 50], [97, 50], example_metadata)]"


definition example_block :: pystr where
  \<comment> \<open>the four lines \<open>ID: 1\<close>, the story key with nothing after its colon, the solution key
      with \<open>x\<close>, and the difficulty key with \<open>9\<close>\<close>
  "example_block = [73, 68, 58, 32, 49, 10, 27748, 38754, 58, 10, 27748, 24213, 58, 32, 120, 10,
     38590, 24230, 58, 32, 57]"

section \<open>Properties of the string operations\<close>

lemma sublist_dropWhile:
  assumes "w \<noteq> []" and "\<not> P (hd w)"
  shows "sublist w (dropWhile P s) = sublist w s"
proof (induction s)
  case Nil
  show ?case by simp
next
  case (Cons c cs)
  show ?case
  proof (cases "P c")
    case True
    have "\<not> prefix w (c # cs)"
    proof
      assume "prefix w (c # cs)"
      with assms(1) have "hd w = c" by (cases w) auto
      with True assms(2) show False by simp
    qed
    with True Cons show ?thesis by (simp add: sublist_Cons_right)
  next
    case False
    then show ?thesis by simp
  qed
qed

lemma sublist_strip:
  assumes "w \<noteq> []" and "\<not> isspace (hd w)" and "\<not> isspace (last w)"
  shows "sublist w (strip s) = sublist w s"
proof -
  have r: "rev w \<noteq> []" "\<not> isspace (hd (rev w))"
    using assms by (simp_all add: hd_rev)
  have "sublist w (strip s) = sublist (rev w) (dropWhile isspace (rev (dropWhile isspace s)))"
    unfolding strip_def by (metis rev_rev_ident sublist_rev)
  also have "\<dots> = sublist (rev w) (rev (dropWhile isspace s))"
    using r by (simp add: sublist_dropWhile)
  also have "\<dots> = sublist w (dropWhile isspace s)"
    by simp
  also have "\<dots> = sublist w s"
    using assms(1,2) by (simp add: sublist_dropWhile)
  finally show ?thesis .
qed

lemma first_valid_in: "first_valid vs r = Some v \<Longrightarrow> v \<in> set vs \<and> sublist v r"
  by (induction vs) (auto split: if_splits)

lemma first_valid_None: "first_valid vs r = None \<longleftrightarrow> (\<forall>v \<in> set vs. \<not> sublist v r)"
  by (induction vs) auto

lemma first_valid_first:
  "i < length vs \<Longrightarrow> sublist (vs ! i) r \<Longrightarrow> (\<forall>j < i. \<not> sublist (vs ! j) r)
     \<Longrightarrow> first_valid vs r = Some (vs ! i)"
proof (induction vs arbitrary: i)
  case Nil
  then show ?case by simp
next
  case (Cons v vs)
  show ?case
  proof (cases i)
    case 0
    with Cons.prems show ?thesis by simp
  next
    case (Suc k)
    with Cons.prems have "\<not> sublist v r" by auto
    moreover have "first_valid vs r = Some (vs ! k)"
      using Cons.prems Suc by (intro Cons.IH) auto
    ultimately show ?thesis using Suc by simp
  qed
qed

lemma answer_words_of_empty: "answer_words_of s = []"
  by (simp add: answer_words_of_def iter_str_def filter_empty_conv)

lemma simple_answer_check_False: "simple_answer_check lw player_guess ans = False"
  by (simp add: simple_answer_check_def answer_words_of_empty)

lemma vocabulary_words_plain:
  "\<forall>w \<in> set (valid_responses @ negative_words @ affirmative_words @ unrelated_words).
     w \<noteq> [] \<and> \<not> isspace (hd w) \<and> \<not> isspace (last w)"
  by (simp add: valid_responses_def negative_words_def affirmative_words_def unrelated_words_def
      SHI_def FOU_def WU_GUAN_def QING_CHONGXIN_TIWEN_def HEN_JIEJIN_LE_def
      NI_CAIDUI_LE_YIBUFEN_def isspace_def)

lemma sublist_strip_word:
  "w \<in> set (valid_responses @ negative_words @ affirmative_words @ unrelated_words)
     \<Longrightarrow> sublist w (strip s) = sublist w s"
  using vocabulary_words_plain by (intro sublist_strip) blast+

lemma list_ex_strip:
  "set ws \<subseteq> set (valid_responses @ negative_words @ affirmative_words @ unrelated_words)
     \<Longrightarrow> list_ex (\<lambda>w. sublist w (strip s)) ws = list_ex (\<lambda>w. sublist w s) ws"
  by (induction ws) (simp_all add: sublist_strip_word del: set_append)

lemma first_valid_strip:
  "set vs \<subseteq> set (valid_responses @ negative_words @ affirmative_words @ unrelated_words)
     \<Longrightarrow> first_valid vs (strip s) = first_valid vs s"
  by (induction vs) (simp_all add: sublist_strip_word del: set_append)

lemma validate_ai_response_raw:
  "validate_ai_response raw =
     (case first_valid valid_responses raw of
        Some valid \<Rightarrow> valid
      | None \<Rightarrow>
          if list_ex (\<lambda>word. sublist word raw) negative_words then FOU
          else if list_ex (\<lambda>word. sublist word raw) affirmative_words then SHI
          else if list_ex (\<lambda>word. sublist word raw) unrelated_words then WU_GUAN
          else QING_CHONGXIN_TIWEN)"
proof -
  have v: "first_valid valid_responses (strip raw) = first_valid valid_responses raw"
    by (rule first_valid_strip) auto
  have n: "list_ex (\<lambda>w. sublist w (strip raw)) negative_words
             = list_ex (\<lambda>w. sublist w raw) negative_words"
    by (rule list_ex_strip) auto
  have a: "list_ex (\<lambda>w. sublist w (strip raw)) affirmative_words
             = list_ex (\<lambda>w. sublist w raw) affirmative_words"
    by (rule list_ex_strip) auto
  have u: "list_ex (\<lambda>w. sublist w (strip raw)) unrelated_words
             = list_ex (\<lambda>w. sublist w raw) unrelated_words"
    by (rule list_ex_strip) auto
  show ?thesis
    unfolding validate_ai_response_def Let_def v n a u ..
qed

section \<open>Properties of the session store and the handlers\<close>

lemma map_of_set_game_state:
  "map_of (game_states (set_game_state p k gs)) = (map_of (game_states p))(k \<mapsto> gs)"
  by (simp add: set_game_state_def update_conv')

lemma map_of_cleanup_game_session:
  "map_of (game_states (cleanup_game_session p k)) = (map_of (game_states p))(k := None)"
  by (simp add: cleanup_game_session_def delete_conv')

lemma keys_set_game_state:
  "map_of (game_states p) k = Some gs0
     \<Longrightarrow> map fst (game_states (set_game_state p k gs)) = map fst (game_states p)"
  by (auto simp: set_game_state_def update_keys dest: map_of_SomeD intro: rev_image_eqI)

lemma keep_alive_fields:
  "question (keep_alive p gs) = question gs"
  "answer (keep_alive p gs) = answer gs"
  "metadata (keep_alive p gs) = metadata gs"
  "question_count (keep_alive p gs) = question_count gs"
  "llm_conversation_context (keep_alive p gs) = llm_conversation_context gs"
  by (simp_all add: keep_alive_def split: option.splits)

lemma plugin_fields_set_game_state:
  "session_timeout (set_game_state p k gs) = session_timeout p"
  "max_questions (set_game_state p k gs) = max_questions p"
  "questions_bank (set_game_state p k gs) = questions_bank p"
  by (simp_all add: set_game_state_def)

lemma map_of_fold_cleanup:
  "map_of (game_states (fold (\<lambda>session_key p'. cleanup_game_session p' session_key) ks p)) k
     = (if k \<in> set ks then None else map_of (game_states p) k)"
  by (induction ks arbitrary: p) (auto simp: map_of_cleanup_game_session)

lemma admin_end_all_games_sessions:
  "map_of (game_states (fst (admin_end_all_games p))) k = Some gs'
     \<Longrightarrow> map_of (game_states p) k = Some gs'"
  by (auto simp: admin_end_all_games_def map_of_fold_cleanup split: if_splits)

lemma end_turtle_soup_sessions:
  "map_of (game_states (fst (end_turtle_soup p ev))) k = Some gs'
     \<Longrightarrow> map_of (game_states p) k = Some gs'"
  by (auto simp: end_turtle_soup_def Let_def map_of_cleanup_game_session split: option.splits if_splits)

lemma force_end_turtle_soup_sessions:
  "map_of (game_states (fst (force_end_turtle_soup p ev))) k = Some gs'
     \<Longrightarrow> map_of (game_states p) k = Some gs'"
  by (auto simp: force_end_turtle_soup_def Let_def map_of_cleanup_game_session split: option.splits if_splits)

lemma reveal_answer_plugin: "fst (reveal_answer p ev) = p"
  by (simp add: reveal_answer_def split: option.splits)

lemma send_help_message_plugin: "fst (send_help_message p) = p"
  by (simp add: send_help_message_def)

lemma get_ai_judge_response_count:
  "question_count (snd (get_ai_judge_response rt q gs)) = question_count gs"
  by (simp add: get_ai_judge_response_def Let_def split: option.splits)

lemma judge_round_sessions:
  assumes "map_of (game_states (fst (judge_round p rt key q gs sent))) k = Some gs'"
  shows "if k = key then question_count gs' = question_count gs
         else map_of (game_states p) k = Some gs'"
proof (cases "question_count gs > max_questions p")
  case True
  with assms show ?thesis
    by (auto simp: judge_round_def map_of_cleanup_game_session split: if_splits)
next
  case False
  obtain reply gs1 where r: "get_ai_judge_response rt q gs = (reply, gs1)"
    by (cases "get_ai_judge_response rt q gs")
  then have c: "question_count gs1 = question_count gs"
    using get_ai_judge_response_count [of rt q gs] by simp
  from assms False r c show ?thesis
    by (auto simp: judge_round_def Let_def map_of_cleanup_game_session map_of_set_game_state
        split: if_splits option.splits)
qed

lemma handle_turtle_soup_question_sessions:
  assumes "map_of (game_states p) (get_session_key ev) = Some gs"
    and "map_of (game_states (fst (handle_turtle_soup_question p rt ev q))) k = Some gs'"
  shows "if k = get_session_key ev then question_count gs' = question_count gs + 1
         else map_of (game_states p) k = Some gs'"
proof -
  let ?key = "get_session_key ev"
  let ?gs = "(keep_alive p gs)\<lparr>question_count := question_count (keep_alive p gs) + 1\<rparr>"
  let ?p1 = "set_game_state p ?key ?gs"
  have cnt: "question_count ?gs = question_count gs + 1"
    by (simp add: keep_alive_fields)
  have other: "k \<noteq> ?key \<Longrightarrow> map_of (game_states ?p1) k = map_of (game_states p) k"
    by (simp add: map_of_set_game_state)
  have unfold: "handle_turtle_soup_question p rt ev q =
      (if is_a_guess q then
         (if removed_during_check rt
          then (cleanup_game_session ?p1 ?key, [MSG_AI_CHECKING_ANSWER])
          else if is_answer_correct rt q (answer ?gs)
          then (cleanup_game_session ?p1 ?key,
                [MSG_AI_CHECKING_ANSWER,
                 MSG_CORRECT_ANSWER (answer ?gs) (question_count ?gs) (tags (metadata ?gs))])
          else judge_round ?p1 rt ?key q ?gs [MSG_AI_CHECKING_ANSWER])
       else judge_round ?p1 rt ?key q ?gs [])"
    using assms(1) by (simp add: handle_turtle_soup_question_def Let_def)
  consider (gone) "fst (handle_turtle_soup_question p rt ev q) = cleanup_game_session ?p1 ?key"
    | (round) sent where "fst (handle_turtle_soup_question p rt ev q)
                            = fst (judge_round ?p1 rt ?key q ?gs sent)"
    unfolding unfold
    by (cases "is_a_guess q"; cases "removed_during_check rt";
        cases "is_answer_correct rt q (answer ?gs)") auto
  then show ?thesis
  proof cases
    case gone
    with assms(2) other show ?thesis
      by (auto simp: map_of_cleanup_game_session split: if_splits)
  next
    case round
    with assms(2) have "map_of (game_states (fst (judge_round ?p1 rt ?key q ?gs sent))) k = Some gs'"
      by simp
    from judge_round_sessions [OF this] cnt other show ?thesis
      by (auto split: if_splits)
  qed
qed

lemma change_question_sessions:
  assumes "map_of (game_states (fst (change_question p rt ev))) k = Some gs'"
  shows "if k = get_session_key ev \<and> snd (change_question p rt ev) \<noteq> [MSG_CHANGE_FAILED]
            \<and> map_of (game_states p) k \<noteq> None
         then question_count gs' = 0
         else map_of (game_states p) k = Some gs'"
  using assms
  by (auto simp: change_question_def Let_def map_of_set_game_state keep_alive_fields
      split: option.splits if_splits prod.splits)

lemma command_words_distinct:
  "prefix CMD_ASK x \<Longrightarrow> \<not> prefix CMD_START x \<and> x \<noteq> CMD_END \<and> x \<noteq> CMD_FORCE_END
      \<and> x \<noteq> CMD_REVEAL \<and> x \<noteq> CMD_CHANGE \<and> x \<noteq> CMD_HELP"
  "\<not> prefix CMD_START CMD_CHANGE" "CMD_CHANGE \<noteq> CMD_END" "CMD_CHANGE \<noteq> CMD_FORCE_END"
  "CMD_CHANGE \<noteq> CMD_REVEAL" "\<not> prefix CMD_ASK CMD_CHANGE"
  by (auto simp: CMD_ASK_def CMD_START_def CMD_END_def CMD_FORCE_END_def CMD_REVEAL_def
      CMD_CHANGE_def CMD_HELP_def prefix_def)

section \<open>Claims\<close>

text \<open>
  C6. For every raw reply, \<open>_validate_ai_response\<close> returns one of the six labels of
  \<open>valid_responses\<close>. It returns the first label, in the order of that list, that the raw
  reply contains; when the reply contains none, the negative markers give "fou", else the
  affirmative markers give "shi", else the relatedness markers give "wu guan", else the
  result is "qing chongxin tiwen" (ask again). The source tests the stripped reply; since
  no label or marker starts or ends with whitespace, that is the same as testing the raw
  reply (\<open>validate_ai_response_raw\<close>).
\<close>

theorem validate_ai_response_in_vocabulary:
  "validate_ai_response raw \<in> set valid_responses
   \<and> (\<forall>i < length valid_responses.
        sublist (valid_responses ! i) raw \<and> (\<forall>j < i. \<not> sublist (valid_responses ! j) raw)
        \<longrightarrow> validate_ai_response raw = valid_responses ! i)
   \<and> ((\<forall>v \<in> set valid_responses. \<not> sublist v raw) \<longrightarrow>
        validate_ai_response raw =
          (if list_ex (\<lambda>word. sublist word raw) negative_words then FOU
           else if list_ex (\<lambda>word. sublist word raw) affirmative_words then SHI
           else if list_ex (\<lambda>word. sublist word raw) unrelated_words then WU_GUAN
           else QING_CHONGXIN_TIWEN))"
proof (intro conjI allI impI)
  show "validate_ai_response raw \<in> set valid_responses"
  proof (cases "first_valid valid_responses raw")
    case None
    then show ?thesis
      by (simp add: validate_ai_response_raw valid_responses_def)
  next
    case (Some v)
    then show ?thesis
      using first_valid_in [OF Some] by (simp add: validate_ai_response_raw)
  qed
next
  fix i
  assume "i < length valid_responses"
    and "sublist (valid_responses ! i) raw \<and> (\<forall>j < i. \<not> sublist (valid_responses ! j) raw)"
  then have "first_valid valid_responses raw = Some (valid_responses ! i)"
    by (intro first_valid_first) auto
  then show "validate_ai_response raw = valid_responses ! i"
    by (simp add: validate_ai_response_raw)
next
  assume "\<forall>v \<in> set valid_responses. \<not> sublist v raw"
  then have "first_valid valid_responses raw = None"
    by (simp add: first_valid_None)
  then show "validate_ai_response raw =
          (if list_ex (\<lambda>word. sublist word raw) negative_words then FOU
           else if list_ex (\<lambda>word. sublist word raw) affirmative_words then SHI
           else if list_ex (\<lambda>word. sublist word raw) unrelated_words then WU_GUAN
           else QING_CHONGXIN_TIWEN)"
    by (simp add: validate_ai_response_raw)
qed

lemma reply_no_contains_FOU: "sublist (valid_responses ! 1) [32, 21542, 23450, 10]"
  by (simp add: valid_responses_def FOU_def SHI_def sublist_Cons_right)
lemma reply_no_lacks_SHI: "\<forall>j<1. \<not> sublist (valid_responses ! j) [32, 21542, 23450, 10]"
  by (simp add: valid_responses_def FOU_def SHI_def sublist_Cons_right)
lemma reply_cuowu_lacks_vocabulary: "\<forall>v \<in> set valid_responses. \<not> sublist v [38169, 35823, 10]"
  by (simp add: valid_responses_def FOU_def SHI_def  WU_GUAN_def QING_CHONGXIN_TIWEN_def HEN_JIEJIN_LE_def
      NI_CAIDUI_LE_YIBUFEN_def sublist_Cons_right)

theorem validate_ai_response_in_vocabulary_witness:
  "validate_ai_response [32, 21542, 23450, 10] = FOU
   \<and> validate_ai_response [38169, 35823, 10] = FOU
   \<and> validate_ai_response [104, 109, 109] = QING_CHONGXIN_TIWEN"
proof -
  have l: "(1::nat) < length valid_responses"
    by (simp add: valid_responses_def)
  have a: "validate_ai_response [32, 21542, 23450, 10] = valid_responses ! 1"
    using validate_ai_response_in_vocabulary [of "[32, 21542, 23450, 10]",
        THEN conjunct2, THEN conjunct1, rule_format, of 1] l reply_no_contains_FOU reply_no_lacks_SHI
    by blast
  have v: "\<forall>v \<in> set valid_responses. \<not> sublist v [38169, 35823, 10]" by (rule reply_cuowu_lacks_vocabulary)
  have b: "validate_ai_response [38169, 35823, 10] = FOU"
    using validate_ai_response_in_vocabulary [of "[38169, 35823, 10]"] v
    by (simp add: negative_words_def sublist_Cons_right)
  have v': "\<forall>v \<in> set valid_responses. \<not> sublist v [104, 109, 109]"
  by (simp add: valid_responses_def FOU_def SHI_def  WU_GUAN_def QING_CHONGXIN_TIWEN_def HEN_JIEJIN_LE_def
      NI_CAIDUI_LE_YIBUFEN_def sublist_Cons_right)
  have c: "validate_ai_response [104, 109, 109] = QING_CHONGXIN_TIWEN"
    using validate_ai_response_in_vocabulary [of "[104, 109, 109]"] v'
    by (simp add: negative_words_def affirmative_words_def unrelated_words_def sublist_Cons_right)
  from a b c show ?thesis by (simp add: valid_responses_def)
qed

text \<open>
  C1. The fallback check does not accept a guess that is the solution itself: for the
  built-in question 001, with its solution as the guess, \<open>_simple_answer_check\<close> returns
  \<open>False\<close>. The loop \<open>for word in answer_lower\<close> runs over single code points, every one of
  which the test \<open>len(word) > 1\<close> drops, so the set of key words is empty for every
  solution and the check returns \<open>False\<close> on every input (\<open>simple_answer_check_False\<close>).
\<close>

theorem simple_answer_check_rejects_solution:
  "simple_answer_check ascii_lower (fst (snd (hd get_default_questions)))
     (fst (snd (hd get_default_questions))) = False"
  by (rule simple_answer_check_False)

lemma example_session_found:
  "map_of (game_states (example_plugin b)) (get_session_key (example_event text)) = Some example_session"
  by (simp add: example_plugin_def example_event_def get_session_key_def)

lemma strip_CMD_START: "strip CMD_START = CMD_START"
  by (simp add: strip_def CMD_START_def isspace_def)

text \<open>
  C9. A start while the session key already has a session is rejected with the
  already-in-progress notice and changes nothing of the game. Through the command
  \<open>start_turtle_soup\<close> the plugin is returned as it was. Through the session's waiter
  (\<open>_handle_game_turn\<close> on an input that begins with the start word) the keys of the store
  and their order, the bank and every other session are unchanged, and the session itself
  keeps its question, answer, metadata, question count and conversation context (only its
  timer is reset).
\<close>

theorem start_while_active_rejected:
  assumes "map_of (game_states p) (get_session_key ev) = Some gs"
  shows "start_turtle_soup p rt ev = (p, [MSG_GAME_IN_PROGRESS])
    \<and> (prefix CMD_START (strip (message_str ev)) \<longrightarrow>
         snd (handle_game_turn p rt ev) = [MSG_GAME_IN_PROGRESS]
         \<and> map fst (game_states (fst (handle_game_turn p rt ev))) = map fst (game_states p)
         \<and> questions_bank (fst (handle_game_turn p rt ev)) = questions_bank p
         \<and> (\<forall>k. k \<noteq> get_session_key ev \<longrightarrow>
               map_of (game_states (fst (handle_game_turn p rt ev))) k = map_of (game_states p) k)
         \<and> (\<exists>gs'. map_of (game_states (fst (handle_game_turn p rt ev))) (get_session_key ev) = Some gs'
               \<and> question gs' = question gs \<and> answer gs' = answer gs
               \<and> metadata gs' = metadata gs
               \<and> question_count gs' = question_count gs
               \<and> llm_conversation_context gs' = llm_conversation_context gs))"
proof (intro conjI impI)
  show "start_turtle_soup p rt ev = (p, [MSG_GAME_IN_PROGRESS])"
    using assms by (simp add: start_turtle_soup_def)
next
  assume s: "prefix CMD_START (strip (message_str ev))"
  have h: "handle_game_turn p rt ev
             = (set_game_state p (get_session_key ev) (keep_alive p gs), [MSG_GAME_IN_PROGRESS])"
    using assms s by (simp add: handle_game_turn_def)
  show "snd (handle_game_turn p rt ev) = [MSG_GAME_IN_PROGRESS]"
    by (simp add: h)
  show "map fst (game_states (fst (handle_game_turn p rt ev))) = map fst (game_states p)"
    using assms by (simp add: h keys_set_game_state)
  show "questions_bank (fst (handle_game_turn p rt ev)) = questions_bank p"
    by (simp add: h plugin_fields_set_game_state)
  show "\<forall>k. k \<noteq> get_session_key ev \<longrightarrow>
               map_of (game_states (fst (handle_game_turn p rt ev))) k = map_of (game_states p) k"
    by (simp add: h map_of_set_game_state)
  show "\<exists>gs'. map_of (game_states (fst (handle_game_turn p rt ev))) (get_session_key ev) = Some gs'
               \<and> question gs' = question gs \<and> answer gs' = answer gs
               \<and> metadata gs' = metadata gs
               \<and> question_count gs' = question_count gs
               \<and> llm_conversation_context gs' = llm_conversation_context gs"
    by (simp add: h map_of_set_game_state keep_alive_fields)
qed


theorem start_while_active_rejected_witness:
  "start_turtle_soup (example_plugin 40) example_runtime (example_event CMD_START)
     = (example_plugin 40, [MSG_GAME_IN_PROGRESS])
   \<and> snd (handle_game_turn (example_plugin 40) example_runtime (example_event CMD_START))
       = [MSG_GAME_IN_PROGRESS]
   \<and> map fst (game_states (fst (handle_game_turn (example_plugin 40) example_runtime
         (example_event CMD_START)))) = [[117, 49]]"
proof -
  have pre: "prefix CMD_START (strip (message_str (example_event CMD_START)))"
    by (simp add: example_event_def strip_CMD_START)
  show ?thesis
    using start_while_active_rejected [OF example_session_found [of 40 CMD_START], of example_runtime] pre
    by (simp add: example_plugin_def)
qed

lemma handle_turtle_soup_question_active:
  assumes "map_of (game_states p) (get_session_key ev) = Some gs0"
    and "gs = (keep_alive p gs0)\<lparr>question_count := question_count gs0 + 1\<rparr>"
    and "p1 = set_game_state p (get_session_key ev) gs"
  shows "handle_turtle_soup_question p rt ev q =
      (if is_a_guess q then
         (if removed_during_check rt
          then (cleanup_game_session p1 (get_session_key ev), [MSG_AI_CHECKING_ANSWER])
          else if is_answer_correct rt q (answer gs0)
          then (cleanup_game_session p1 (get_session_key ev),
                [MSG_AI_CHECKING_ANSWER,
                 MSG_CORRECT_ANSWER (answer gs0) (question_count gs0 + 1) (tags (metadata gs0))])
          else judge_round p1 rt (get_session_key ev) q gs [MSG_AI_CHECKING_ANSWER])
       else judge_round p1 rt (get_session_key ev) q gs [])"
  using assms by (simp add: handle_turtle_soup_question_def Let_def keep_alive_fields)

text \<open>
  C4. An accepted question is handled by \<open>_handle_turtle_soup_question\<close>. When the session
  exists, its count after the increment exceeds \<open>max_questions\<close>, and the question is not a
  guess that ends the turn early (a guess is checked, found not correct, and the session is
  still registered when the check returns), the handler sends the exhausted-budget summary
  with the solution and the tags as its last message, and the session is absent from the
  store afterwards; the other sessions are untouched.
\<close>

theorem question_budget_exhausted:
  assumes "map_of (game_states p) (get_session_key ev) = Some gs"
    and "question_count gs + 1 > max_questions p"
    and "is_a_guess q \<longrightarrow> \<not> removed_during_check rt \<and> \<not> is_answer_correct rt q (answer gs)"
  shows "snd (handle_turtle_soup_question p rt ev q)
           = (if is_a_guess q then [MSG_AI_CHECKING_ANSWER] else [])
             @ [MSG_OUT_OF_QUESTIONS (max_questions p) (answer gs) (tags (metadata gs))]
    \<and> map_of (game_states (fst (handle_turtle_soup_question p rt ev q))) (get_session_key ev) = None
    \<and> (\<forall>k. k \<noteq> get_session_key ev \<longrightarrow>
          map_of (game_states (fst (handle_turtle_soup_question p rt ev q))) k
            = map_of (game_states p) k)"
proof -
  define gs1 where "gs1 = (keep_alive p gs)\<lparr>question_count := question_count gs + 1\<rparr>"
  define p1 where "p1 = set_game_state p (get_session_key ev) gs1"
  have over: "question_count gs1 > max_questions p1"
    using assms(2) by (simp add: gs1_def p1_def plugin_fields_set_game_state)
  have round: "judge_round p1 rt (get_session_key ev) q gs1 sent
        = (cleanup_game_session p1 (get_session_key ev),
           sent @ [MSG_OUT_OF_QUESTIONS (max_questions p) (answer gs) (tags (metadata gs))])" for sent
    using over by (simp add: judge_round_def gs1_def p1_def plugin_fields_set_game_state
        keep_alive_fields)
  have h: "handle_turtle_soup_question p rt ev q
        = (cleanup_game_session p1 (get_session_key ev),
           (if is_a_guess q then [MSG_AI_CHECKING_ANSWER] else [])
             @ [MSG_OUT_OF_QUESTIONS (max_questions p) (answer gs) (tags (metadata gs))])"
    using assms(3)
    by (simp add: handle_turtle_soup_question_active [OF assms(1) gs1_def p1_def] round)
  show ?thesis
    by (simp add: h map_of_cleanup_game_session p1_def map_of_set_game_state)
qed

lemma not_a_guess_why: "\<not> is_a_guess [119, 104, 121]"
  by (simp add: is_a_guess_def guess_keywords_def outcome_words_def action_words_def SHI_def
      sublist_Cons_right)

theorem question_budget_exhausted_witness:
  "snd (handle_turtle_soup_question (example_plugin 5) example_runtime (example_event [])
      [119, 104, 121]) = [MSG_OUT_OF_QUESTIONS 5 [97, 49] [[120]]]
   \<and> map_of (game_states (fst (handle_turtle_soup_question (example_plugin 5) example_runtime
        (example_event []) [119, 104, 121]))) [117, 49] = None"
proof -
  have over: "question_count example_session + 1 > max_questions (example_plugin 5)"
    by (simp add: example_session_def example_plugin_def)
  have guess: "is_a_guess [119, 104, 121] \<longrightarrow> \<not> removed_during_check example_runtime
      \<and> \<not> is_answer_correct example_runtime [119, 104, 121] (answer example_session)"
    by (simp add: not_a_guess_why)
  have key: "get_session_key (example_event []) = [117, 49]"
    by (simp add: get_session_key_def example_event_def)
  show ?thesis
    using question_budget_exhausted [OF example_session_found [of 5 "[]"] over guess]
    by (simp add: not_a_guess_why key example_plugin_def example_session_def
        example_metadata_def)
qed

lemma start_turtle_soup_sessions:
  assumes "map_of (game_states p) k = Some gs"
  shows "map_of (game_states (fst (start_turtle_soup p rt ev))) k = Some gs"
proof (cases "map_of (game_states p) (get_session_key ev)")
  case (Some a)
  then show ?thesis using assms by (simp add: start_turtle_soup_def)
next
  case None
  with assms have "k \<noteq> get_session_key ev" by auto
  with None assms show ?thesis
    by (auto simp: start_turtle_soup_def Let_def map_of_set_game_state
        split: sum.splits option.splits prod.splits)
qed

text \<open>
  C5. A turn of a session is one call of \<open>_handle_game_turn\<close>. For every session that is
  in the store before the turn and still in it afterwards, the question count after the turn
  is the count before plus one when the session is the one the input belongs to and the
  input is an accepted question (the question word followed by a non-empty text; the
  increment precedes the classification of the question as a guess, so it does not depend
  on it), is zero when the input is the change-question word and no apology was sent, and
  is the count before in every other case. The start command leaves every existing
  session as it is.
\<close>

theorem question_count_per_turn:
  assumes "map_of (game_states p) k = Some gs"
  shows "(\<forall>gs'. map_of (game_states (fst (handle_game_turn p rt ev))) k = Some gs' \<longrightarrow>
           question_count gs' =
             (if k = get_session_key ev \<and> prefix CMD_ASK (strip (message_str ev))
                  \<and> 2 \<le> length (split_ws1 (strip (message_str ev)))
                  \<and> strip (split_ws1 (strip (message_str ev)) ! 1) \<noteq> []
              then question_count gs + 1
              else if k = get_session_key ev \<and> strip (message_str ev) = CMD_CHANGE
                  \<and> snd (handle_game_turn p rt ev) \<noteq> [MSG_CHANGE_FAILED]
              then 0
              else question_count gs))
    \<and> map_of (game_states (fst (start_turtle_soup p rt ev))) k = Some gs"
proof (intro conjI allI impI)
  show "map_of (game_states (fst (start_turtle_soup p rt ev))) k = Some gs"
    by (rule start_turtle_soup_sessions [OF assms])
next
  fix gs'
  let ?key = "get_session_key ev"
  let ?inp = "strip (message_str ev)"
  let ?r = "handle_game_turn p rt ev"
  assume after: "map_of (game_states (fst ?r)) k = Some gs'"
  let ?asked = "prefix CMD_ASK ?inp \<and> 2 \<le> length (split_ws1 ?inp)
      \<and> strip (split_ws1 ?inp ! 1) \<noteq> []"
  show "question_count gs' =
      (if k = ?key \<and> prefix CMD_ASK ?inp \<and> 2 \<le> length (split_ws1 ?inp)
            \<and> strip (split_ws1 ?inp ! 1) \<noteq> []
       then question_count gs + 1
       else if k = ?key \<and> ?inp = CMD_CHANGE \<and> snd ?r \<noteq> [MSG_CHANGE_FAILED]
       then 0 else question_count gs)"
  proof (cases "map_of (game_states p) ?key")
    case None
    then have "?r = (p, [])" by (simp add: handle_game_turn_def)
    moreover from None assms have "k \<noteq> ?key" by auto
    ultimately show ?thesis using after assms by simp
  next
    case (Some gsk)
    note active = Some
    consider (start) "prefix CMD_START ?inp"
      | (ending) "\<not> prefix CMD_START ?inp" "?inp = CMD_END"
      | (force) "\<not> prefix CMD_START ?inp" "?inp \<noteq> CMD_END" "?inp = CMD_FORCE_END"
      | (reveal) "\<not> prefix CMD_START ?inp" "?inp \<noteq> CMD_END" "?inp \<noteq> CMD_FORCE_END"
          "?inp = CMD_REVEAL"
      | (change) "\<not> prefix CMD_START ?inp" "?inp \<noteq> CMD_END" "?inp \<noteq> CMD_FORCE_END"
          "?inp \<noteq> CMD_REVEAL" "?inp = CMD_CHANGE"
      | (helping) "\<not> prefix CMD_START ?inp" "?inp \<noteq> CMD_END" "?inp \<noteq> CMD_FORCE_END"
          "?inp \<noteq> CMD_REVEAL" "?inp \<noteq> CMD_CHANGE" "?inp = CMD_HELP"
      | (ask) "\<not> prefix CMD_START ?inp" "?inp \<noteq> CMD_END" "?inp \<noteq> CMD_FORCE_END"
          "?inp \<noteq> CMD_REVEAL" "?inp \<noteq> CMD_CHANGE" "?inp \<noteq> CMD_HELP" "prefix CMD_ASK ?inp"
      | (other) "\<not> prefix CMD_START ?inp" "?inp \<noteq> CMD_END" "?inp \<noteq> CMD_FORCE_END"
          "?inp \<noteq> CMD_REVEAL" "?inp \<noteq> CMD_CHANGE" "?inp \<noteq> CMD_HELP" "\<not> prefix CMD_ASK ?inp"
      by blast
    then show ?thesis
    proof cases
      case start
      then have r: "?r = (set_game_state p ?key (keep_alive p gsk), [MSG_GAME_IN_PROGRESS])"
        using active by (simp add: handle_game_turn_def)
      have na: "\<not> prefix CMD_ASK ?inp" "?inp \<noteq> CMD_CHANGE"
        using start command_words_distinct by auto
      show ?thesis
        using after assms active na
        by (auto simp: r map_of_set_game_state keep_alive_fields split: if_splits)
    next
      case ending
      then have r: "?r = end_turtle_soup p ev"
        using active by (simp add: handle_game_turn_def)
      have na: "\<not> prefix CMD_ASK ?inp" "?inp \<noteq> CMD_CHANGE"
        using ending command_words_distinct by auto
      from after have "map_of (game_states p) k = Some gs'"
        unfolding r by (rule end_turtle_soup_sessions)
      with assms na show ?thesis by simp
    next
      case force
      then have r: "?r = force_end_turtle_soup p ev"
        using active by (simp add: handle_game_turn_def)
      have na: "\<not> prefix CMD_ASK ?inp" "?inp \<noteq> CMD_CHANGE"
        using force command_words_distinct by auto
      from after have "map_of (game_states p) k = Some gs'"
        unfolding r by (rule force_end_turtle_soup_sessions)
      with assms na show ?thesis by simp
    next
      case reveal
      then have r: "?r = reveal_answer p ev"
        using active by (simp add: handle_game_turn_def)
      have na: "\<not> prefix CMD_ASK ?inp" "?inp \<noteq> CMD_CHANGE"
        using reveal command_words_distinct by auto
      from after have "map_of (game_states p) k = Some gs'"
        by (simp add: r reveal_answer_plugin)
      with assms na show ?thesis by simp
    next
      case change
      then have r: "?r = change_question p rt ev"
        using active by (simp add: handle_game_turn_def)
      have na: "\<not> prefix CMD_ASK ?inp"
        using change command_words_distinct by auto
      from after have "map_of (game_states (fst (change_question p rt ev))) k = Some gs'"
        by (simp add: r)
      from change_question_sessions [OF this] assms na change(5) show ?thesis
        by (auto simp: r split: if_splits)
    next
      case helping
      then have r: "?r = send_help_message p"
        using active by (simp add: handle_game_turn_def)
      have na: "\<not> prefix CMD_ASK ?inp"
        using helping command_words_distinct by auto
      from after have "map_of (game_states p) k = Some gs'"
        by (simp add: r send_help_message_plugin)
      with assms na helping(5) show ?thesis by simp
    next
      case ask
      show ?thesis
      proof (cases "length (split_ws1 ?inp) < 2 \<or> strip (split_ws1 ?inp ! 1) = []")
        case True
        then have r: "?r = (p, [MSG_EMPTY_QUESTION])"
          using active ask by (simp add: handle_game_turn_def Let_def)
        from True have "\<not> (2 \<le> length (split_ws1 ?inp) \<and> strip (split_ws1 ?inp ! 1) \<noteq> [])"
          by auto
        with after assms ask(5) show ?thesis by (simp add: r)
      next
        case False
        then have r: "?r = handle_turtle_soup_question p rt ev (strip (split_ws1 ?inp ! 1))"
          using active ask by (simp add: handle_game_turn_def Let_def)
        from False have acc: "2 \<le> length (split_ws1 ?inp)" "strip (split_ws1 ?inp ! 1) \<noteq> []"
          by auto
        from after have "map_of (game_states (fst (handle_turtle_soup_question p rt ev
            (strip (split_ws1 ?inp ! 1))))) k = Some gs'"
          by (simp add: r)
        from handle_turtle_soup_question_sessions [OF active this] assms active acc ask(5,7)
        show ?thesis by (auto split: if_splits)
      qed
    next
      case other
      have sess: "map_of (game_states (fst ?r)) k = Some gs' \<Longrightarrow> question_count gs' = question_count gs"
      proof (cases "?inp = CMD_ADMIN_END \<and> is_admin ev")
        case True
        then have r: "?r = admin_end_all_games p"
          using active other by (simp add: handle_game_turn_def)
        assume "map_of (game_states (fst ?r)) k = Some gs'"
        then have "map_of (game_states p) k = Some gs'"
          unfolding r by (rule admin_end_all_games_sessions)
        with assms show ?thesis by simp
      next
        case False
        assume a: "map_of (game_states (fst ?r)) k = Some gs'"
        show ?thesis
        proof (cases "controller gsk")
          case None
          then have r: "?r = (cleanup_game_session p (sender_id ev), [])"
            using active other False by (auto simp: handle_game_turn_def)
          from a assms show ?thesis
            by (auto simp: r map_of_cleanup_game_session split: if_splits)
        next
          case (Some c)
          then have r: "?r = (set_game_state p ?key (keep_alive p gsk), [])"
            using active other False by (auto simp: handle_game_turn_def)
          from a assms active show ?thesis
            by (auto simp: r map_of_set_game_state keep_alive_fields split: if_splits)
        qed
      qed
      with after other show ?thesis by simp
    qed
  qed
qed

lemma example_ask_parts:
  "strip [28023, 40863, 27748, 25552, 38382, 32, 119, 104, 121]
     = [28023, 40863, 27748, 25552, 38382, 32, 119, 104, 121]"
  "split_ws1 [28023, 40863, 27748, 25552, 38382, 32, 119, 104, 121]
     = [[28023, 40863, 27748, 25552, 38382], [119, 104, 121]]"
  "strip [119, 104, 121] = [119, 104, 121]"
  by (simp_all add: strip_def split_ws1_def isspace_def)

lemma example_ask_turn:
  "handle_game_turn (example_plugin 40) example_runtime
       (example_event [28023, 40863, 27748, 25552, 38382, 32, 119, 104, 121])
     = ((example_plugin 40)\<lparr>game_states :=
           [([117, 49], example_session\<lparr>question_count := 6,
                          controller := Some \<lparr>remaining = 1000\<rparr>\<rparr>)]\<rparr>,
        [MSG_ROUND_RESULT 6 [119, 104, 121] FOU 34])"
proof -
  have j: "simple_judge [119, 104, 121] [97, 49] = FOU"
    by (simp add: simple_judge_def split_ws_def isspace_def sublist_Cons_right)
  show ?thesis
    by (simp add: handle_game_turn_def example_ask_parts example_event_def get_session_key_def
        example_plugin_def CMD_START_def CMD_END_def CMD_FORCE_END_def CMD_REVEAL_def
        CMD_CHANGE_def CMD_HELP_def CMD_ASK_def handle_turtle_soup_question_def Let_def
        not_a_guess_why keep_alive_def keep_def example_session_def set_game_state_def
        judge_round_def get_ai_judge_response_def example_runtime_def j)
qed

theorem question_count_per_turn_witness:
  "map_of (game_states (fst (handle_game_turn (example_plugin 40) example_runtime
       (example_event [28023, 40863, 27748, 25552, 38382, 32, 119, 104, 121])))) [117, 49]
     = Some (example_session\<lparr>question_count := 6, controller := Some \<lparr>remaining = 1000\<rparr>\<rparr>)
   \<and> question_count (example_session\<lparr>question_count := 6,
         controller := Some \<lparr>remaining = 1000\<rparr>\<rparr>) = question_count example_session + 1
   \<and> map_of (game_states (fst (start_turtle_soup (example_plugin 40) example_runtime
       (example_event CMD_START)))) [117, 49] = Some example_session"
proof -
  let ?ev = "example_event [28023, 40863, 27748, 25552, 38382, 32, 119, 104, 121]"
  have found: "map_of (game_states (example_plugin 40)) [117, 49] = Some example_session"
    by (simp add: example_plugin_def)
  have after: "map_of (game_states (fst (handle_game_turn (example_plugin 40) example_runtime ?ev)))
      [117, 49] = Some (example_session\<lparr>question_count := 6,
                          controller := Some \<lparr>remaining = 1000\<rparr>\<rparr>)"
    by (simp add: example_ask_turn)
  have key: "get_session_key ?ev = [117, 49]"
    by (simp add: get_session_key_def example_event_def)
  have msg: "message_str ?ev = [28023, 40863, 27748, 25552, 38382, 32, 119, 104, 121]"
    by (simp add: example_event_def)
  note t = question_count_per_turn [OF found, of example_runtime ?ev]
  from t [THEN conjunct1, rule_format, OF after]
  have "question_count (example_session\<lparr>question_count := 6,
         controller := Some \<lparr>remaining = 1000\<rparr>\<rparr>) = question_count example_session + 1"
    by (simp add: key msg example_ask_parts CMD_ASK_def)
  moreover have "map_of (game_states (fst (start_turtle_soup (example_plugin 40) example_runtime
       (example_event CMD_START)))) [117, 49] = Some example_session"
    using question_count_per_turn [OF found, of example_runtime "example_event CMD_START"]
    by simp
  ultimately show ?thesis using after by simp
qed

lemma change_loop_exhausted:
  assumes "\<forall>k < max_attempts. \<not> differs (get_question_and_answer bank None (draws k)) cur"
    and "attempts < max_attempts"
  shows "change_loop bank draws cur attempts new
           = (get_question_and_answer bank None (draws (max_attempts - 1)), max_attempts)"
  using assms
proof (induction bank draws cur attempts new rule: change_loop.induct)
  case (1 bank draws cur attempts new)
  let ?new = "get_question_and_answer bank None (draws attempts)"
  from "1.prems" have nd: "\<not> differs ?new cur" by simp
  show ?case
  proof (cases "attempts + 1 < max_attempts")
    case True
    have "change_loop bank draws cur (attempts + 1) ?new
            = (get_question_and_answer bank None (draws (max_attempts - 1)), max_attempts)"
      using "1.prems" nd True by (intro "1.IH") auto
    with "1.prems"(2) nd show ?thesis
      by (subst change_loop.simps) (simp add: Let_def)
  next
    case False
    with "1.prems"(2) have last: "attempts = max_attempts - 1" "\<not> attempts + 1 < max_attempts"
      by auto
    have "change_loop bank draws cur (attempts + 1) ?new = (?new, attempts + 1)"
      using last(2) by (subst change_loop.simps) simp
    with "1.prems"(2) nd last show ?thesis
      by (subst change_loop.simps) (simp add: Let_def)
  qed
qed

lemma change_loop_first:
  assumes "k < max_attempts" and "attempts \<le> k"
    and "differs (get_question_and_answer bank None (draws k)) cur"
    and "\<forall>j. attempts \<le> j \<and> j < k \<longrightarrow> \<not> differs (get_question_and_answer bank None (draws j)) cur"
  shows "change_loop bank draws cur attempts new = (get_question_and_answer bank None (draws k), k)"
  using assms
proof (induction bank draws cur attempts new rule: change_loop.induct)
  case (1 bank draws cur attempts new)
  let ?new = "get_question_and_answer bank None (draws attempts)"
  have lt: "attempts < max_attempts" using "1.prems" by simp
  show ?case
  proof (cases "attempts = k")
    case True
    with "1.prems" lt show ?thesis
      by (subst change_loop.simps) (simp add: Let_def)
  next
    case False
    with "1.prems" have nd: "\<not> differs ?new cur" and le: "attempts + 1 \<le> k" by auto
    have "change_loop bank draws cur (attempts + 1) ?new
            = (get_question_and_answer bank None (draws k), k)"
      using "1.prems" nd le lt by (intro "1.IH") auto
    with lt nd show ?thesis
      by (subst change_loop.simps) (simp add: Let_def)
  qed
qed

lemma change_loop_bound:
  "attempts \<le> max_attempts \<Longrightarrow> snd (change_loop bank draws cur attempts new) \<le> max_attempts"
proof (induction bank draws cur attempts new rule: change_loop.induct)
  case (1 bank draws cur attempts new)
  show ?case
  proof (cases "attempts < max_attempts")
    case True
    let ?new = "get_question_and_answer bank None (draws attempts)"
    have "snd (change_loop bank draws cur (attempts + 1) ?new) \<le> max_attempts"
      if "\<not> differs ?new cur"
      using True that by (intro "1.IH") auto
    with True show ?thesis
      by (subst change_loop.simps) (simp add: Let_def)
  next
    case False
    with "1.prems" show ?thesis
      by (subst change_loop.simps) simp
  qed
qed

lemma change_loop_first0:
  assumes "k < max_attempts"
    and "differs (get_question_and_answer bank None (draws k)) cur"
    and "\<forall>j < k. \<not> differs (get_question_and_answer bank None (draws j)) cur"
  shows "change_loop bank draws cur 0 new = (get_question_and_answer bank None (draws k), k)"
proof (rule change_loop_first)
  show "k < max_attempts" by (rule assms(1))
  show "0 \<le> k" by simp
  show "differs (get_question_and_answer bank None (draws k)) cur" by (rule assms(2))
  show "\<forall>j. 0 \<le> j \<and> j < k \<longrightarrow> \<not> differs (get_question_and_answer bank None (draws j)) cur"
    using assms(3) by simp
qed

lemma change_loop_differs_iff:
  "differs (fst (change_loop bank draws cur 0 None)) cur
     \<longleftrightarrow> (\<exists>k < max_attempts. differs (get_question_and_answer bank None (draws k)) cur)"
proof (cases "\<exists>k < max_attempts. differs (get_question_and_answer bank None (draws k)) cur")
  case True
  let ?d = "\<lambda>k. k < max_attempts \<and> differs (get_question_and_answer bank None (draws k)) cur"
  define m where "m = (LEAST k. ?d k)"
  from True have ex: "\<exists>k. ?d k" by blast
  have m: "?d m"
    unfolding m_def using ex by (rule LeastI_ex)
  have least: "\<forall>j < m. \<not> differs (get_question_and_answer bank None (draws j)) cur"
  proof (intro allI impI)
    fix j
    assume jm: "j < m"
    then have "\<not> ?d j"
      unfolding m_def by (rule not_less_Least)
    moreover from jm m have "j < max_attempts" by simp
    ultimately show "\<not> differs (get_question_and_answer bank None (draws j)) cur" by simp
  qed
  have "change_loop bank draws cur 0 None = (get_question_and_answer bank None (draws m), m)"
    using m least by (intro change_loop_first0) simp_all
  then have "differs (fst (change_loop bank draws cur 0 None)) cur"
    using m by simp
  with True show ?thesis by simp
next
  case False
  have mp: "0 < max_attempts" by (simp add: max_attempts_def)
  from False have none: "\<forall>k < max_attempts. \<not> differs (get_question_and_answer bank None (draws k)) cur"
    by simp
  have "change_loop bank draws cur 0 None
      = (get_question_and_answer bank None (draws (max_attempts - 1)), max_attempts)"
    using none mp by (rule change_loop_exhausted)
  moreover have "\<not> differs (get_question_and_answer bank None (draws (max_attempts - 1))) cur"
    using none mp by simp
  ultimately have "\<not> differs (fst (change_loop bank draws cur 0 None)) cur" by simp
  with False show ?thesis by simp
qed

text \<open>
  C7 (as amended). The sampling loop of \<open>change_question\<close> always ends, after at most ten
  samples. When one of the ten samples is a record with a non-empty story and solution
  whose story differs from the current one, the loop ends at the first such sample and
  returns it; and the record the loop returns differs from the current one exactly when
  one of the ten samples does. A bank of more than one record does not guarantee that:
  every draw may pick the current record.
\<close>

theorem change_loop_returns_first_different:
  "snd (change_loop bank draws cur 0 None) \<le> max_attempts
   \<and> (\<forall>k < max_attempts.
         differs (get_question_and_answer bank None (draws k)) cur
         \<and> (\<forall>j < k. \<not> differs (get_question_and_answer bank None (draws j)) cur)
         \<longrightarrow> change_loop bank draws cur 0 None = (get_question_and_answer bank None (draws k), k))
   \<and> (differs (fst (change_loop bank draws cur 0 None)) cur
        \<longleftrightarrow> (\<exists>k < max_attempts. differs (get_question_and_answer bank None (draws k)) cur))"
proof (intro conjI allI impI)
  show "snd (change_loop bank draws cur 0 None) \<le> max_attempts"
    by (rule change_loop_bound) simp
next
  fix k
  assume k: "k < max_attempts"
    and d: "differs (get_question_and_answer bank None (draws k)) cur
         \<and> (\<forall>j < k. \<not> differs (get_question_and_answer bank None (draws j)) cur)"
  show "change_loop bank draws cur 0 None = (get_question_and_answer bank None (draws k), k)"
    using k d [THEN conjunct1] d [THEN conjunct2] by (rule change_loop_first0)
next
  show "differs (fst (change_loop bank draws cur 0 None)) cur
        \<longleftrightarrow> (\<exists>k < max_attempts. differs (get_question_and_answer bank None (draws k)) cur)"
    by (rule change_loop_differs_iff)
qed

theorem change_loop_returns_first_different_witness:
  "change_loop example_bank2 (\<lambda>k. if k < 2 then 0 else 1) [115, 49] 0 None
     = (Some ([115, 50], [97, 50], example_metadata), 2)"
proof -
  let ?draws = "\<lambda>k::nat. if k < 2 then 0 else 1::nat"
  have g0: "get_question_and_answer example_bank2 None 0
      = Some ([115, 49], [97, 49], example_metadata)"
    by (simp add: get_question_and_answer_def example_bank2_def)
  have g1: "get_question_and_answer example_bank2 None (Suc 0)
      = Some ([115, 50], [97, 50], example_metadata)"
    by (simp add: get_question_and_answer_def example_bank2_def)
  have d: "differs (get_question_and_answer example_bank2 None (?draws 2)) [115, 49]
      \<and> (\<forall>j < 2. \<not> differs (get_question_and_answer example_bank2 None (?draws j)) [115, 49])"
    by (simp add: g0 g1 differs_def)
  have l: "(2::nat) < max_attempts" by (simp add: max_attempts_def)
  from change_loop_returns_first_different [of example_bank2 ?draws "[115, 49]",
      THEN conjunct2, THEN conjunct1, rule_format, OF l d]
  show ?thesis by (simp add: g1)
qed

theorem change_loop_same_record_counterexample:
  "1 < length example_bank2
   \<and> change_loop example_bank2 (\<lambda>k. 0) [115, 49] 0 None
       = (Some ([115, 49], [97, 49], example_metadata), 10)"
proof -
  have s: "get_question_and_answer example_bank2 None 0 = Some ([115, 49], [97, 49], example_metadata)"
    by (simp add: get_question_and_answer_def example_bank2_def)
  have "change_loop example_bank2 (\<lambda>k. 0) [115, 49] 0 None
      = (get_question_and_answer example_bank2 None 0, max_attempts)"
    by (rule change_loop_exhausted) (simp_all add: s differs_def max_attempts_def)
  moreover have "1 < length example_bank2"
    by (simp add: example_bank2_def)
  ultimately show ?thesis by (simp add: s max_attempts_def)
qed

text \<open>
  C2. With a bank that holds only the session's current question, no sample of
  \<open>change_question\<close> differs from it; the handler nevertheless reports a successful
  change, resets the question count of the session from 5 to 0 and empties its
  conversation context. The test after the loop looks only at whether the last sample is
  empty, not at whether it differs from the current question.
\<close>

theorem change_question_resets_without_new_question:
  "change_question (example_plugin 40) example_runtime (example_event CMD_CHANGE)
     = ((example_plugin 40)\<lparr>game_states :=
           [([117, 49], example_session\<lparr>question_count := 0, llm_conversation_context := [],
                          controller := Some \<lparr>remaining = 1000\<rparr>\<rparr>)]\<rparr>,
        [MSG_CHANGE_QUESTION example_metadata [115, 49] 40])"
proof -
  have s: "get_question_and_answer (questions_bank (example_plugin 40)) None 0
      = Some ([115, 49], [97, 49], example_metadata)"
    by (simp add: get_question_and_answer_def example_plugin_def)
  have "change_loop (questions_bank (example_plugin 40)) (\<lambda>k. 0) [115, 49] 0 None
      = (get_question_and_answer (questions_bank (example_plugin 40)) None 0, max_attempts)"
    by (rule change_loop_exhausted) (simp_all add: s differs_def max_attempts_def)
  then have l: "fst (change_loop (questions_bank (example_plugin 40)) (choice example_runtime)
      (question example_session) 0 None) = Some ([115, 49], [97, 49], example_metadata)"
    by (simp add: s example_runtime_def example_session_def)
  have f: "map_of (game_states (example_plugin 40)) (get_session_key (example_event CMD_CHANGE))
      = Some example_session"
    by (rule example_session_found)
  show ?thesis
    unfolding change_question_def Let_def f option.case l prod.case
    by (simp add: example_plugin_def example_session_def example_runtime_def keep_alive_def
        keep_def set_game_state_def get_session_key_def example_event_def)
qed

text \<open>
  C8. The reveal-answer and help inputs of an active session do not touch its timer: on the
  session of \<open>example_plugin\<close>, whose timer has 5 seconds left while the configured timeout is
  1000, \<open>_handle_game_turn\<close> returns the plugin unchanged for both inputs, so the timer still
  has 5 seconds left. The handlers \<open>reveal_answer\<close> and \<open>_send_help_message\<close> never call
  \<open>controller.keep\<close>, which the start, question, change-question and unrecognised-input
  branches do.
\<close>

theorem reveal_and_help_leave_timer:
  "handle_game_turn (example_plugin 40) example_runtime (example_event CMD_REVEAL)
     = (example_plugin 40, [MSG_REVEAL_ANSWER example_metadata [115, 49] [97, 49] 5])
   \<and> handle_game_turn (example_plugin 40) example_runtime (example_event CMD_HELP)
     = (example_plugin 40, [MSG_HELP 40 1000])
   \<and> map_of (game_states (example_plugin 40)) [117, 49] = Some example_session
   \<and> controller example_session = Some \<lparr>remaining = 5\<rparr>
   \<and> session_timeout (example_plugin 40) = 1000"
  by (simp add: handle_game_turn_def example_event_def get_session_key_def strip_def isspace_def
      example_plugin_def CMD_START_def CMD_END_def CMD_FORCE_END_def CMD_REVEAL_def
      CMD_CHANGE_def CMD_HELP_def reveal_answer_def send_help_message_def example_session_def)










lemma example_block_lines:
  "split_sep [10] [] example_block
     = [[73, 68, 58, 32, 49], [27748, 38754, 58], [27748, 24213, 58, 32, 120],
        [38590, 24230, 58, 32, 57]]"
  by (simp add: example_block_def)

lemma example_block_info:
  "block_info example_block
     = [KEY_ID \<mapsto> [49], KEY_TANGMIAN \<mapsto> [], KEY_TANGDI \<mapsto> [120], KEY_NANDU \<mapsto> [57]]"
  by (simp add: block_info_def example_block_lines read_line_def strip_def isspace_def
      split_once_def KEY_ID_def KEY_TANGMIAN_def KEY_TANGDI_def KEY_NANDU_def)

lemma example_block_parsed:
  "parse_question_block int_ascii example_block
     = Parsed ([], [120], \<lparr>id' = [49], title = [], difficulty = 9, tags = []\<rparr>)"
  by (simp add: parse_question_block_def example_block_info dict_get_def int_ascii_def
      strip_def isspace_def parse_tags_def
      KEY_ID_def KEY_TANGMIAN_def KEY_TANGDI_def KEY_NANDU_def KEY_BIAOTI_def KEY_BIAOQIAN_def)

lemma parse_blocks_append:
  "parse_blocks py_int (xs @ ys) = parse_blocks py_int xs @ parse_blocks py_int ys"
  by (simp add: parse_blocks_def)

lemma parse_blocks_single:
  "parse_blocks py_int [b] =
     (if strip b = [] \<or> prefix [35] (strip b) then []
      else case parse_question_block py_int (strip b) of
             Parsed q \<Rightarrow> [q] | Warned \<Rightarrow> [] | Skipped \<Rightarrow> [])"
  by (simp add: parse_blocks_def Let_def)

lemma parse_blocks_records:
  "r \<in> set (parse_blocks py_int bs) \<Longrightarrow> \<exists>block. parse_question_block py_int block = Parsed r"
proof (induction bs)
  case Nil
  then show ?case by (simp add: parse_blocks_def)
next
  case (Cons b bs)
  from Cons.prems have "r \<in> set (parse_blocks py_int [b]) \<or> r \<in> set (parse_blocks py_int bs)"
    using parse_blocks_append [of py_int "[b]" bs] by simp
  then show ?case
  proof
    assume "r \<in> set (parse_blocks py_int [b])"
    then have "parse_question_block py_int (strip b) = Parsed r"
      by (auto simp: parse_blocks_single split: if_splits parsed.splits)
    then show ?thesis ..
  next
    assume "r \<in> set (parse_blocks py_int bs)"
    then show ?thesis by (rule Cons.IH)
  qed
qed

text \<open>
  C3 (as amended). A block gives a record only when its lines define the three keys
  \<open>ID\<close>, "tang mian" (story) and "tang di" (solution) and \<open>int\<close> accepts its difficulty
  text (\<open>'3'\<close> when the key is absent); the record's identifier, story, solution and
  difficulty are those values, so the story and the solution may be empty and the
  difficulty may be any integer. A block that lacks one of the three keys gives no record
  (nothing is logged), a block whose difficulty text \<open>int\<close> rejects gives no record (a
  warning is logged); either way the records of the blocks before and after it are those
  the parser gives without it. Every record of the bank is a built-in question or the
  record of a block.
\<close>

theorem parse_questions_bank_records:
  "(parse_question_block py_int block = Parsed (q, a, m) \<longrightarrow>
      block_info block KEY_ID = Some (id' m)
      \<and> block_info block KEY_TANGMIAN = Some q
      \<and> block_info block KEY_TANGDI = Some a
      \<and> py_int (dict_get (block_info block) KEY_NANDU [51]) = Some (difficulty m))
   \<and> (block_info block KEY_ID = None \<or> block_info block KEY_TANGMIAN = None
        \<or> block_info block KEY_TANGDI = None
       \<longrightarrow> parse_question_block py_int block = Skipped)
   \<and> (block_info block KEY_ID \<noteq> None \<and> block_info block KEY_TANGMIAN \<noteq> None
        \<and> block_info block KEY_TANGDI \<noteq> None
        \<and> py_int (dict_get (block_info block) KEY_NANDU [51]) = None
       \<longrightarrow> parse_question_block py_int block = Warned)
   \<and> (parse_question_block py_int (strip b) = Skipped
        \<or> parse_question_block py_int (strip b) = Warned
       \<longrightarrow> parse_blocks py_int (before @ [b] @ after)
             = parse_blocks py_int before @ parse_blocks py_int after)
   \<and> (r \<in> set (parse_questions_bank py_int source) \<longrightarrow>
         r \<in> set get_default_questions
         \<or> (\<exists>block'. parse_question_block py_int block' = Parsed r))"
proof (intro conjI impI)
  assume "parse_question_block py_int block = Parsed (q, a, m)"
  then show "block_info block KEY_ID = Some (id' m)"
    and "block_info block KEY_TANGMIAN = Some q"
    and "block_info block KEY_TANGDI = Some a"
    and "py_int (dict_get (block_info block) KEY_NANDU [51]) = Some (difficulty m)"
    by (auto simp: parse_question_block_def Let_def split: option.splits)
next
  assume "block_info block KEY_ID = None \<or> block_info block KEY_TANGMIAN = None
        \<or> block_info block KEY_TANGDI = None"
  then show "parse_question_block py_int block = Skipped"
    by (auto simp: parse_question_block_def Let_def split: option.splits)
next
  assume "block_info block KEY_ID \<noteq> None \<and> block_info block KEY_TANGMIAN \<noteq> None
        \<and> block_info block KEY_TANGDI \<noteq> None
        \<and> py_int (dict_get (block_info block) KEY_NANDU [51]) = None"
  then show "parse_question_block py_int block = Warned"
    by (auto simp: parse_question_block_def Let_def split: option.splits)
next
  assume "parse_question_block py_int (strip b) = Skipped
        \<or> parse_question_block py_int (strip b) = Warned"
  then have "parse_blocks py_int [b] = []"
    by (auto simp: parse_blocks_single)
  then show "parse_blocks py_int (before @ [b] @ after)
             = parse_blocks py_int before @ parse_blocks py_int after"
    by (simp only: parse_blocks_append append_Nil)
next
  assume r: "r \<in> set (parse_questions_bank py_int source)"
  show "r \<in> set get_default_questions \<or> (\<exists>block'. parse_question_block py_int block' = Parsed r)"
  proof (cases source)
    case None
    with r show ?thesis by (simp add: parse_questions_bank_def)
  next
    case (Some content)
    let ?qs = "parse_blocks py_int (split_sep [45, 45, 45] [] (strip content))"
    show ?thesis
    proof (cases "?qs = []")
      case True
      with r Some show ?thesis by (simp add: parse_questions_bank_def Let_def)
    next
      case False
      with r Some have "r \<in> set ?qs" by (simp add: parse_questions_bank_def Let_def)
      then show ?thesis by (blast dest: parse_blocks_records)
    qed
  qed
qed

lemma block_x_skipped: "parse_question_block int_ascii (strip [120]) = Skipped"
  by (simp add: parse_question_block_def block_info_def read_line_def strip_def isspace_def)

theorem parse_questions_bank_records_witness:
  "block_info example_block KEY_TANGMIAN = Some []
   \<and> int_ascii (dict_get (block_info example_block) KEY_NANDU [51]) = Some 9
   \<and> parse_blocks int_ascii ([example_block] @ [[120]] @ [])
       = parse_blocks int_ascii [example_block] @ parse_blocks int_ascii []"
proof -
  note t = parse_questions_bank_records [of int_ascii example_block "[]" "[120]"
      "\<lparr>id' = [49], title = [], difficulty = 9, tags = []\<rparr>" "[120]" "[example_block]" "[]"]
  from t [THEN conjunct1, rule_format, OF example_block_parsed]
  have a: "block_info example_block KEY_TANGMIAN = Some []
      \<and> int_ascii (dict_get (block_info example_block) KEY_NANDU [51]) = Some 9"
    by simp
  have s: "parse_question_block int_ascii (strip [120]) = Skipped
        \<or> parse_question_block int_ascii (strip [120]) = Warned"
    by (simp add: block_x_skipped)
  from t [THEN conjunct2, THEN conjunct2, THEN conjunct2, THEN conjunct1, rule_format, OF s]
  have b: "parse_blocks int_ascii ([example_block] @ [[120]] @ [])
       = parse_blocks int_ascii [example_block] @ parse_blocks int_ascii []" .
  from a b show ?thesis by simp
qed

theorem parse_empty_story_counterexample:
  "parse_questions_bank int_ascii (Some example_block)
     = [([], [120], \<lparr>id' = [49], title = [], difficulty = 9, tags = []\<rparr>)]"
proof -
  have s: "strip example_block = example_block"
    by (simp add: strip_def example_block_def isspace_def)
  have d: "split_sep [45, 45, 45] [] example_block = [example_block]"
    by (simp add: example_block_def)
  have n: "example_block \<noteq> []" "\<not> prefix [35] example_block"
    by (simp_all add: example_block_def)
  show ?thesis
    by (simp add: parse_questions_bank_def s d parse_blocks_single n example_block_parsed)
qed

end
